theory Spec2Isabelle
  imports Complex_Main
begin

section \<open>The 2048 grid engine of \<^verbatim>\<open>src/game/game_logic.py\<close>\<close>

subsection \<open>Data\<close>

text \<open>
  A cell of the grid is a Python value: an integer (\<open>0\<close> is the empty cell) or the
  string \<^verbatim>\<open>'M'\<close>, the special marker.
\<close>

datatype cell = Num int | M

type_synonym grid = "cell list list"

text \<open>The exceptions the engine can raise: an index outside a list, a key missing in a dict.\<close>

datatype error = IndexError | KeyError

text \<open>
  The fields of class \<^verbatim>\<open>Game2048\<close> that the engine reads. (\<^verbatim>\<open>special_tiles\<close> and
  \<^verbatim>\<open>save_dir\<close> are written once by the constructor and read by no method modelled here.)
  The field \<^verbatim>\<open>size\<close> is \<open>size_g\<close>, since \<open>size\<close> is a constant of HOL.
\<close>

record game2048 =
  size_g :: int
  grid :: grid
  score :: int
  high_score :: int
  moves :: int
  game_over :: bool
  won :: bool

text \<open>
  The two random draws of \<^verbatim>\<open>add_new_tile\<close>: \<^verbatim>\<open>random.choice(empty_cells)\<close> returns some
  element of the list, here the one at position \<open>pick\<close> modulo the length, so that every
  element can be drawn and nothing else; \<^verbatim>\<open>random.random()\<close> is the number \<open>rand\<close>.
\<close>

record draw =
  pick :: nat
  rand :: real

text \<open>
  A method that mutates the object either returns a value or raises; in both cases the
  object is left as mutated so far. \<open>Inl (e, s)\<close>: raised \<open>e\<close>, the object is \<open>s\<close>;
  \<open>Inr (v, s)\<close>: returned \<open>v\<close>, the object is \<open>s\<close>.
\<close>

type_synonym 'a outcome = "(error \<times> game2048) + ('a \<times> game2048)"

definition state_after :: "'a outcome \<Rightarrow> game2048" where
  "state_after r = (case r of Inl (e, s) \<Rightarrow> s | Inr (v, s) \<Rightarrow> s)"

subsection \<open>Reading the grid\<close>

text \<open>\<^verbatim>\<open>self.grid[i][j]\<close> for indices that are not negative.\<close>

definition cell_at :: "grid \<Rightarrow> nat \<Rightarrow> nat \<Rightarrow> error + cell" where
  "cell_at g i j =
     (if i < length g then
        (if j < length (g ! i) then Inr (g ! i ! j) else Inl IndexError)
      else Inl IndexError)"

text \<open>\<^verbatim>\<open>self.grid[i][j] == c\<close>\<close>

definition same_at :: "grid \<Rightarrow> nat \<Rightarrow> nat \<Rightarrow> cell \<Rightarrow> error + bool" where
  "same_at g i j c = (case cell_at g i j of Inl e \<Rightarrow> Inl e | Inr c' \<Rightarrow> Inr (c' = c))"

text \<open>
  The index pairs of \<^verbatim>\<open>for i in range(self.size): for j in range(self.size)\<close>, in the
  order of the loops.
\<close>

definition cells_range :: "int \<Rightarrow> (nat \<times> nat) list" where
  "cells_range n = List.product [0..<nat n] [0..<nat n]"

subsection \<open>\<^verbatim>\<open>is_game_over\<close>\<close>

text \<open>
  The loop over the four neighbours of an \<^verbatim>\<open>'M'\<close> cell; \<open>True\<close> when the loop reaches its
  \<^verbatim>\<open>return False\<close>.
\<close>

fun m_neighbour :: "int \<Rightarrow> grid \<Rightarrow> nat \<Rightarrow> nat \<Rightarrow> (int \<times> int) list \<Rightarrow> error + bool" where
  "m_neighbour n g i j [] = Inr False"
| "m_neighbour n g i j ((dr, dc) # ds) =
     (let ni = int i + dr; nj = int j + dc in
      if 0 \<le> ni \<and> ni < n \<and> 0 \<le> nj \<and> nj < n then
        (case same_at g (nat ni) (nat nj) M of
           Inl e \<Rightarrow> Inl e
         | Inr hit \<Rightarrow> if hit then Inr True else m_neighbour n g i j ds)
      else m_neighbour n g i j ds)"

text \<open>The second pair of loops of \<^verbatim>\<open>is_game_over\<close>; the result is the method's result.\<close>

fun scan_cells :: "int \<Rightarrow> grid \<Rightarrow> (nat \<times> nat) list \<Rightarrow> error + bool" where
  "scan_cells n g [] = Inr True"
| "scan_cells n g ((i, j) # ps) =
     (case cell_at g i j of
        Inl e \<Rightarrow> Inl e
      | Inr current \<Rightarrow>
          (case (if int j + 1 < n then same_at g i (j + 1) current else Inr False) of
             Inl e \<Rightarrow> Inl e
           | Inr right \<Rightarrow>
               if right then Inr False
               else
                 (case (if int i + 1 < n then same_at g (i + 1) j current else Inr False) of
                    Inl e \<Rightarrow> Inl e
                  | Inr below \<Rightarrow>
                      if below then Inr False
                      else
                        (case (if current = M
                               then m_neighbour n g i j [(-1, 0), (1, 0), (0, -1), (0, 1)]
                               else Inr False) of
                           Inl e \<Rightarrow> Inl e
                         | Inr marker \<Rightarrow>
                             if marker then Inr False else scan_cells n g ps))))"

definition is_game_over :: "game2048 \<Rightarrow> error + bool" where
  "is_game_over s =
     (if list_ex (\<lambda>row. Num 0 \<in> set row \<or> M \<in> set row) (grid s) then Inr False
      else scan_cells (size_g s) (grid s) (cells_range (size_g s)))"

definition check_game_over :: "game2048 \<Rightarrow> bool outcome" where
  "check_game_over s =
     (case is_game_over s of
        Inl e \<Rightarrow> Inl (e, s)
      | Inr over \<Rightarrow> if over then Inr (True, s\<lparr>game_over := True\<rparr>) else Inr (False, s))"

subsection \<open>\<^verbatim>\<open>add_new_tile\<close>\<close>

fun empty_cells_of :: "grid \<Rightarrow> (nat \<times> nat) list \<Rightarrow> error + (nat \<times> nat) list" where
  "empty_cells_of g [] = Inr []"
| "empty_cells_of g ((i, j) # ps) =
     (case cell_at g i j of
        Inl e \<Rightarrow> Inl e
      | Inr c \<Rightarrow>
          (case empty_cells_of g ps of
             Inl e \<Rightarrow> Inl e
           | Inr r \<Rightarrow> Inr (if c = Num 0 then (i, j) # r else r)))"

definition add_new_tile :: "draw \<Rightarrow> game2048 \<Rightarrow> bool outcome" where
  "add_new_tile d s =
     (case empty_cells_of (grid s) (cells_range (size_g s)) of
        Inl e \<Rightarrow> Inl (e, s)
      | Inr empty_cells \<Rightarrow>
          if empty_cells = [] then
            (case is_game_over s of
               Inl e \<Rightarrow> Inl (e, s)
             | Inr over \<Rightarrow> Inr (False, if over then s\<lparr>game_over := True\<rparr> else s))
          else
            (case empty_cells ! (pick d mod length empty_cells) of
               (row, col) \<Rightarrow>
                 Inr (True,
                   s\<lparr>grid := (grid s)[row := (grid s ! row)
                                  [col := Num (if rand d < 9 / 10 then 2 else 4)]]\<rparr>)))"

subsection \<open>Score\<close>

definition calculate_total_score :: "grid \<Rightarrow> int" where
  "calculate_total_score g =
     sum_list (map (\<lambda>row. sum_list (map (\<lambda>val. case val of Num v \<Rightarrow> (if v > 0 then v else 0)
                                                      | M \<Rightarrow> 0) row)) g)"

definition update_score :: "game2048 \<Rightarrow> game2048" where
  "update_score s =
     (let s1 = s\<lparr>score := calculate_total_score (grid s)\<rparr>
      in if score s1 > high_score s1 then s1\<lparr>high_score := score s1\<rparr> else s1)"

subsection \<open>\<^verbatim>\<open>clear_surrounding_tiles\<close>\<close>

fun m_positions_of :: "grid \<Rightarrow> (nat \<times> nat) list \<Rightarrow> error + (nat \<times> nat) list" where
  "m_positions_of g [] = Inr []"
| "m_positions_of g ((i, j) # ps) =
     (case cell_at g i j of
        Inl e \<Rightarrow> Inl e
      | Inr c \<Rightarrow>
          (case m_positions_of g ps of
             Inl e \<Rightarrow> Inl e
           | Inr r \<Rightarrow> Inr (if c = M then (i, j) # r else r)))"

text \<open>The nine offsets \<^verbatim>\<open>for dr in [-1, 0, 1]: for dc in [-1, 0, 1]\<close>.\<close>

definition offsets :: "(int \<times> int) list" where
  "offsets = List.product [-1, 0, 1] [-1, 0, 1]"

text \<open>The body of the innermost loop, for one marker position and one offset.\<close>

definition clear_one :: "nat \<times> nat \<Rightarrow> int \<times> int \<Rightarrow> game2048 \<Rightarrow> unit outcome" where
  "clear_one p off s =
     (let new_row = int (fst p) + fst off; new_col = int (snd p) + snd off in
      if 0 \<le> new_row \<and> new_row < size_g s \<and> 0 \<le> new_col \<and> new_col < size_g s then
        (case cell_at (grid s) (nat new_row) (nat new_col) of
           Inl e \<Rightarrow> Inl (e, s)
         | Inr c \<Rightarrow>
             (let s1 = (case c of Num v \<Rightarrow> s\<lparr>score := score s + v\<rparr> | M \<Rightarrow> s)
              in Inr ((), s1\<lparr>grid := (grid s1)[nat new_row :=
                                 (grid s1 ! nat new_row)[nat new_col := Num 0]]\<rparr>)))
      else Inr ((), s))"

fun clear_all :: "((nat \<times> nat) \<times> (int \<times> int)) list \<Rightarrow> game2048 \<Rightarrow> unit outcome" where
  "clear_all [] s = Inr ((), s)"
| "clear_all ((p, off) # rest) s =
     (case clear_one p off s of
        Inl x \<Rightarrow> Inl x
      | Inr (u, s1) \<Rightarrow> clear_all rest s1)"

definition clear_surrounding_tiles :: "game2048 \<Rightarrow> unit outcome" where
  "clear_surrounding_tiles s =
     (case m_positions_of (grid s) (cells_range (size_g s)) of
        Inl e \<Rightarrow> Inl (e, s)
      | Inr m_positions \<Rightarrow> clear_all (List.product m_positions offsets) s)"

subsection \<open>\<^verbatim>\<open>move_left\<close>\<close>

text \<open>The first loop over a row: the cells that are not \<open>0\<close>, in order.\<close>

fun compact :: "cell list \<Rightarrow> cell list" where
  "compact [] = []"
| "compact (val # row) =
     (if val \<noteq> Num 0 \<and> val \<noteq> M then val # compact row
      else if val = M then M # compact row
      else compact row)"

text \<open>\<^verbatim>\<open>new_row[i] * 2\<close>, for a cell that is not \<^verbatim>\<open>'M'\<close>.\<close>

fun twice :: "cell \<Rightarrow> cell" where
  "twice (Num v) = Num (v * 2)"
| "twice M = M"

text \<open>
  The \<^verbatim>\<open>while i < len(new_row)\<close> loop, on the cells from position \<open>i\<close> on. The result is
  what the loop appends to \<^verbatim>\<open>merged\<close>, whether some \<^verbatim>\<open>merged_value\<close> was \<open>2048\<close>, and
  whether the loop set \<^verbatim>\<open>special_merged\<close>.
\<close>

fun merge_row :: "cell list \<Rightarrow> cell list \<times> bool \<times> bool" where
  "merge_row [] = ([], False, False)"
| "merge_row [x] = ([x], False, False)"
| "merge_row (x # y # zs) =
     (if x = y \<and> x \<noteq> M then
        (case merge_row zs of
           (merged, w, sp) \<Rightarrow> (twice x # merged, twice x = Num 2048 \<or> w, sp))
      else if x = M \<and> y = M then
        (case merge_row zs of
           (merged, w, sp) \<Rightarrow> (Num 0 # merged, w, True))
      else
        (case merge_row (y # zs) of
           (merged, w, sp) \<Rightarrow> (x # merged, w, sp)))"

text \<open>One row of the outer loop: \<^verbatim>\<open>merged\<close> after \<^verbatim>\<open>merged.extend([0] * (self.size - len(merged)))\<close>.\<close>

definition merged_row :: "int \<Rightarrow> cell list \<Rightarrow> cell list" where
  "merged_row n row =
     (let merged = fst (merge_row (compact row))
      in merged @ replicate (nat (n - int (length merged))) (Num 0))"

text \<open>
  The loop over the rows: \<^verbatim>\<open>new_grid\<close>, \<^verbatim>\<open>moved\<close>, \<^verbatim>\<open>special_merged\<close>, and whether some
  merge gave \<open>2048\<close>.
\<close>

fun move_rows :: "int \<Rightarrow> grid \<Rightarrow> grid \<times> bool \<times> bool \<times> bool" where
  "move_rows n [] = ([], False, False, False)"
| "move_rows n (row # rows) =
     (case merge_row (compact row) of
        (m, w, sp) \<Rightarrow>
          (case move_rows n rows of
             (new_grid, moved, special_merged, w') \<Rightarrow>
               (merged_row n row # new_grid,
                merged_row n row \<noteq> row \<or> moved,
                sp \<or> special_merged,
                w \<or> w')))"

definition move_left :: "draw \<Rightarrow> game2048 \<Rightarrow> bool outcome" where
  "move_left d s =
     (case move_rows (size_g s) (grid s) of
        (new_grid, moved, special_merged, w) \<Rightarrow>
          (let s1 = (if w \<and> \<not> won s then s\<lparr>won := True\<rparr> else s) in
           if moved \<or> special_merged then
             (case (if special_merged then clear_surrounding_tiles s1 else Inr ((), s1)) of
                Inl x \<Rightarrow> Inl x
              | Inr (u, s2) \<Rightarrow>
                  (case add_new_tile d (s2\<lparr>grid := new_grid, moves := moves s2 + 1\<rparr>) of
                     Inl x \<Rightarrow> Inl x
                   | Inr (spawned, s3) \<Rightarrow>
                       (case check_game_over (update_score s3) of
                          Inl x \<Rightarrow> Inl x
                        | Inr (over, s4) \<Rightarrow> Inr (True, s4))))
           else Inr (False, s1)))"

subsection \<open>The other three directions\<close>

text \<open>
  \<^verbatim>\<open>[list(row) for row in zip(*self.grid)]\<close>: \<^verbatim>\<open>zip\<close> stops at the shortest row, and gives
  nothing for no rows.
\<close>

definition zip_star :: "grid \<Rightarrow> grid" where
  "zip_star g =
     (if g = [] then []
      else map (\<lambda>j. map (\<lambda>row. row ! j) g) [0..<Min (set (map length g))])"

text \<open>\<^verbatim>\<open>[row[::-1] for row in self.grid]\<close>\<close>

definition reverse_rows :: "grid \<Rightarrow> grid" where
  "reverse_rows g = map rev g"

definition move_right :: "draw \<Rightarrow> game2048 \<Rightarrow> bool outcome" where
  "move_right d s =
     (case move_left d (s\<lparr>grid := reverse_rows (grid s)\<rparr>) of
        Inl x \<Rightarrow> Inl x
      | Inr (moved, s1) \<Rightarrow> Inr (moved, s1\<lparr>grid := reverse_rows (grid s1)\<rparr>))"

definition move_up :: "draw \<Rightarrow> game2048 \<Rightarrow> bool outcome" where
  "move_up d s =
     (case move_left d (s\<lparr>grid := zip_star (grid s)\<rparr>) of
        Inl x \<Rightarrow> Inl x
      | Inr (moved, s1) \<Rightarrow> Inr (moved, s1\<lparr>grid := zip_star (grid s1)\<rparr>))"

definition move_down :: "draw \<Rightarrow> game2048 \<Rightarrow> bool outcome" where
  "move_down d s =
     (case move_left d (s\<lparr>grid := reverse_rows (zip_star (grid s))\<rparr>) of
        Inl x \<Rightarrow> Inl x
      | Inr (moved, s1) \<Rightarrow>
          Inr (moved, s1\<lparr>grid := zip_star (reverse_rows (grid s1))\<rparr>))"

datatype direction = Left | Right | Up | Down

text \<open>The dispatch of the callers (\<^verbatim>\<open>get_animated_moves\<close>, the server's \<^verbatim>\<open>make_move\<close>).\<close>

fun move :: "direction \<Rightarrow> draw \<Rightarrow> game2048 \<Rightarrow> bool outcome" where
  "move Left d s = move_left d s"
| "move Right d s = move_right d s"
| "move Up d s = move_up d s"
| "move Down d s = move_down d s"

subsection \<open>Construction, reset, state import\<close>

text \<open>\<^verbatim>\<open>[[0 for _ in range(size)] for _ in range(size)]\<close>\<close>

definition empty_grid :: "int \<Rightarrow> grid" where
  "empty_grid n = replicate (nat n) (replicate (nat n) (Num 0))"

text \<open>The two calls of \<^verbatim>\<open>add_new_tile\<close> and the call of \<^verbatim>\<open>update_score\<close> that end both
  \<^verbatim>\<open>__init__\<close> and \<^verbatim>\<open>reset\<close>.\<close>

definition two_tiles :: "draw \<Rightarrow> draw \<Rightarrow> game2048 \<Rightarrow> unit outcome" where
  "two_tiles d1 d2 s =
     (case add_new_tile d1 s of
        Inl x \<Rightarrow> Inl x
      | Inr (b1, s1) \<Rightarrow>
          (case add_new_tile d2 s1 of
             Inl x \<Rightarrow> Inl x
           | Inr (b2, s2) \<Rightarrow> Inr ((), update_score s2)))"

text \<open>\<^verbatim>\<open>Game2048(size)\<close>\<close>

definition init :: "int \<Rightarrow> draw \<Rightarrow> draw \<Rightarrow> unit outcome" where
  "init n d1 d2 =
     two_tiles d1 d2
       \<lparr>size_g = n, grid = empty_grid n, score = 0, high_score = 0, moves = 0,
        game_over = False, won = False\<rparr>"

definition reset :: "draw \<Rightarrow> draw \<Rightarrow> game2048 \<Rightarrow> unit outcome" where
  "reset d1 d2 s =
     two_tiles d1 d2
       (s\<lparr>grid := empty_grid (size_g s), score := 0, moves := 0,
          game_over := False, won := False\<rparr>)"

text \<open>
  The dict given to \<^verbatim>\<open>set_state\<close>: each key is present or not. (\<^verbatim>\<open>max_tile\<close>, which
  \<^verbatim>\<open>get_state\<close> writes, is not read.)
\<close>

record state_dict =
  d_grid :: "grid option"
  d_score :: "int option"
  d_high_score :: "int option"
  d_moves :: "int option"
  d_game_over :: "bool option"
  d_won :: "bool option"
  d_size :: "int option"

definition set_state :: "state_dict \<Rightarrow> game2048 \<Rightarrow> unit outcome" where
  "set_state st s =
     (case d_grid st of
        None \<Rightarrow> Inl (KeyError, s)
      | Some g \<Rightarrow>
          (let s1 = s\<lparr>grid := g\<rparr> in
           (case d_score st of
              None \<Rightarrow> Inl (KeyError, s1)
            | Some sc \<Rightarrow>
                (let s2 = s1\<lparr>score := sc\<rparr>;
                     s3 = s2\<lparr>high_score :=
                            max (high_score s2)
                                (case d_high_score st of None \<Rightarrow> 0 | Some h \<Rightarrow> h)\<rparr> in
                 (case d_moves st of
                    None \<Rightarrow> Inl (KeyError, s3)
                  | Some mv \<Rightarrow>
                      (let s4 = s3\<lparr>moves := mv\<rparr> in
                       (case d_game_over st of
                          None \<Rightarrow> Inl (KeyError, s4)
                        | Some ov \<Rightarrow>
                            (let s5 = s4\<lparr>game_over := ov\<rparr> in
                             (case d_won st of
                                None \<Rightarrow> Inl (KeyError, s5)
                              | Some w \<Rightarrow>
                                  (let s6 = s5\<lparr>won := w\<rparr> in
                                   (case d_size st of
                                      None \<Rightarrow> Inl (KeyError, s6)
                                    | Some n \<Rightarrow> Inr ((), s6\<lparr>size_g := n\<rparr>))))))))))))"

subsection \<open>Well-formed states\<close>

text \<open>The grid is \<open>N \<times> N\<close>, for \<open>N\<close> the field \<^verbatim>\<open>size\<close>.\<close>

definition wf_grid :: "int \<Rightarrow> grid \<Rightarrow> bool" where
  "wf_grid n g = (length g = nat n \<and> list_all (\<lambda>row. length row = nat n) g)"

definition wf :: "game2048 \<Rightarrow> bool" where
  "wf s = wf_grid (size_g s) (grid s)"

section \<open>The room registry of \<^verbatim>\<open>src/server/flask_app.py\<close>\<close>

text \<open>
  A room is the dict \<^verbatim>\<open>{'players': set(), 'game': Game2048(4)}\<close>. The dict \<^verbatim>\<open>rooms\<close> holds
  references to room objects: \<open>store\<close> is the list of the room objects created so far, in
  the order of their creation, and \<open>rooms\<close> maps a room id to a position in it.
\<close>

record room =
  players :: "nat set"
  game :: game2048

record server =
  rooms :: "string \<rightharpoonup> nat"
  store :: "room list"

text \<open>
  One call of \<^verbatim>\<open>handle_join_room\<close> runs three statements: the test \<^verbatim>\<open>room_id not in rooms\<close>,
  the assignment \<^verbatim>\<open>rooms[room_id] = {...}\<close> when the test found no room, and
  \<^verbatim>\<open>rooms[room_id]['players'].add(request.sid)\<close>. (\<^verbatim>\<open>index\<close> has the same test and
  assignment on \<^verbatim>\<open>games\<close>.) A call is at one of them, has returned, or has raised
  \<^verbatim>\<open>KeyError\<close>.
\<close>

datatype point = Test | Insert | Join | Done | Failed

text \<open>
  A call: its room id, its \<^verbatim>\<open>request.sid\<close>, the random draws of the game it may construct,
  where it is, and the room object it added itself to.
\<close>

record caller =
  room_id :: string
  sid :: nat
  draws :: "draw \<times> draw"
  pc :: point
  joined :: "nat option"

text \<open>The next statement of a call.\<close>

definition caller_step :: "caller \<Rightarrow> server \<Rightarrow> caller \<times> server" where
  "caller_step c sv =
     (case pc c of
        Test \<Rightarrow> (c\<lparr>pc := (if rooms sv (room_id c) = None then Insert else Join)\<rparr>, sv)
      | Insert \<Rightarrow>
          (c\<lparr>pc := Join\<rparr>,
           sv\<lparr>rooms := (rooms sv)(room_id c \<mapsto> length (store sv)),
              store := store sv @
                [\<lparr>players = {},
                  game = state_after (init 4 (fst (draws c)) (snd (draws c)))\<rparr>]\<rparr>)
      | Join \<Rightarrow>
          (case rooms sv (room_id c) of
             None \<Rightarrow> (c\<lparr>pc := Failed\<rparr>, sv)
           | Some a \<Rightarrow>
               (c\<lparr>pc := Done, joined := Some a\<rparr>,
                sv\<lparr>store := (store sv)
                       [a := (store sv ! a)\<lparr>players := insert (sid c) (players (store sv ! a))\<rparr>]\<rparr>))
      | Done \<Rightarrow> (c, sv)
      | Failed \<Rightarrow> (c, sv))"

text \<open>A whole call with no other call in between.\<close>

definition handle_join_room :: "caller \<Rightarrow> server \<Rightarrow> caller \<times> server" where
  "handle_join_room c sv =
     (case caller_step c sv of
        (c1, sv1) \<Rightarrow>
          (case caller_step c1 sv1 of
             (c2, sv2) \<Rightarrow> caller_step c2 sv2))"

text \<open>Calls that run one after another.\<close>

fun serve :: "caller list \<Rightarrow> server \<Rightarrow> caller list \<times> server" where
  "serve [] sv = ([], sv)"
| "serve (c # cs) sv =
     (case handle_join_room c sv of
        (c', sv1) \<Rightarrow>
          (case serve cs sv1 of
             (cs', sv2) \<Rightarrow> (c' # cs', sv2)))"

text \<open>
  Calls that run in threads (\<^verbatim>\<open>async_mode='threading'\<close>, \<^verbatim>\<open>threaded=True\<close>), with no lock:
  a schedule names, step by step, the call that runs its next statement.
\<close>

record threads =
  callers :: "caller list"
  srv :: server

definition thread_step :: "nat \<Rightarrow> threads \<Rightarrow> threads" where
  "thread_step i st =
     (if i < length (callers st) then
        (case caller_step (callers st ! i) (srv st) of
           (c, sv) \<Rightarrow> \<lparr>callers = (callers st)[i := c], srv = sv\<rparr>)
      else st)"

definition run :: "nat list \<Rightarrow> threads \<Rightarrow> threads" where
  "run schedule st = fold thread_step schedule st"

text \<open>\<^verbatim>\<open>rooms = {}\<close>, the registry when the application is created.\<close>

definition no_rooms :: server where
  "no_rooms = \<lparr>rooms = Map.empty, store = []\<rparr>"

section \<open>Notions used in the properties\<close>

subsection \<open>Grids\<close>

text \<open>The number of cells of a row that are not empty.\<close>

definition nz :: "cell list \<Rightarrow> nat" where
  "nz xs = length (filter (\<lambda>v. v \<noteq> Num 0) xs)"

text \<open>The number of tiles on a grid.\<close>

definition tiles :: "grid \<Rightarrow> nat" where
  "tiles g = sum_list (map nz g)"

text \<open>Every cell is empty or holds a value that \<^verbatim>\<open>add_new_tile\<close> writes.\<close>

definition spawned_values :: "grid \<Rightarrow> bool" where
  "spawned_values g = (\<forall>row \<in> set g. \<forall>c \<in> set row. c = Num 0 \<or> c = Num 2 \<or> c = Num 4)"

text \<open>All index pairs of a list lie inside an \<open>n \<times> n\<close> grid.\<close>

definition in_range :: "int \<Rightarrow> (nat \<times> nat) list \<Rightarrow> bool" where
  "in_range n ps = (\<forall>p \<in> set ps. fst p < nat n \<and> snd p < nat n)"

text \<open>What one cell adds to the score.\<close>

definition cell_score :: "cell \<Rightarrow> int" where
  "cell_score val = (case val of Num v \<Rightarrow> (if v > 0 then v else 0) | M \<Rightarrow> 0)"

subsection \<open>The terminal condition, in the words of the specification\<close>

text \<open>No empty cell exists.\<close>

definition no_empty_cell :: "grid \<Rightarrow> bool" where
  "no_empty_cell g = (\<forall>row \<in> set g. Num 0 \<notin> set row)"

text \<open>No two cells that are adjacent, horizontally or vertically, share the same value.\<close>

definition no_equal_neighbours :: "nat \<Rightarrow> grid \<Rightarrow> bool" where
  "no_equal_neighbours n g =
     (\<forall>i < n. \<forall>j < n. (j + 1 < n \<longrightarrow> g ! i ! j \<noteq> g ! i ! (j + 1))
                      \<and> (i + 1 < n \<longrightarrow> g ! i ! j \<noteq> g ! (i + 1) ! j))"

text \<open>No special-marker cell is adjacent to another special-marker cell.\<close>

definition no_adjacent_markers :: "nat \<Rightarrow> grid \<Rightarrow> bool" where
  "no_adjacent_markers n g =
     (\<forall>i < n. \<forall>j < n. g ! i ! j = M \<longrightarrow>
        (j + 1 < n \<longrightarrow> g ! i ! (j + 1) \<noteq> M) \<and> (i + 1 < n \<longrightarrow> g ! (i + 1) ! j \<noteq> M))"

text \<open>No special-marker cell exists at all.\<close>

definition no_marker :: "grid \<Rightarrow> bool" where
  "no_marker g = (\<forall>row \<in> set g. M \<notin> set row)"

text \<open>What \<^verbatim>\<open>is_game_over\<close> computes on a well-formed state.\<close>

definition terminal :: "game2048 \<Rightarrow> bool" where
  "terminal s = (no_empty_cell (grid s) \<and> no_marker (grid s)
                 \<and> no_equal_neighbours (nat (size_g s)) (grid s))"

subsection \<open>What a method leaves alone\<close>

definition keeps :: "game2048 \<Rightarrow> game2048 \<Rightarrow> bool" where
  "keeps s s' = (size_g s' = size_g s \<and> high_score s' = high_score s \<and> won s' = won s)"

definition grows :: "game2048 \<Rightarrow> game2048 \<Rightarrow> bool" where
  "grows s s' = (size_g s' = size_g s \<and> high_score s \<le> high_score s' \<and> won s' = won s)"

subsection \<open>Moves\<close>

text \<open>The merge loop of \<^verbatim>\<open>move_left\<close> computes a \<^verbatim>\<open>merged_value\<close> of \<open>2048\<close> in this row.\<close>

definition produces_2048 :: "cell list \<Rightarrow> bool" where
  "produces_2048 row = fst (snd (merge_row (compact row)))"

text \<open>The state after the loops of \<^verbatim>\<open>move_left\<close>, which assign \<^verbatim>\<open>self.won\<close> only.\<close>

definition win_set :: "game2048 \<Rightarrow> game2048" where
  "win_set s = (if list_ex produces_2048 (grid s) \<and> \<not> won s then s\<lparr>won := True\<rparr> else s)"

text \<open>
  The grid that \<^verbatim>\<open>move_left\<close> is called on by the move in a direction, and what the move
  does to the grid that \<^verbatim>\<open>move_left\<close> leaves.
\<close>

fun frame :: "direction \<Rightarrow> grid \<Rightarrow> grid" where
  "frame Left g = g"
| "frame Right g = reverse_rows g"
| "frame Up g = zip_star g"
| "frame Down g = reverse_rows (zip_star g)"

fun unframe :: "direction \<Rightarrow> grid \<Rightarrow> grid" where
  "unframe Left g = g"
| "unframe Right g = reverse_rows g"
| "unframe Up g = zip_star g"
| "unframe Down g = zip_star (reverse_rows g)"

text \<open>
  The grid after the rows have moved and before the tile is spawned: \<^verbatim>\<open>new_grid\<close> of the
  call of \<^verbatim>\<open>move_left\<close> that the move in a direction makes.
\<close>

definition pre_spawn_grid :: "direction \<Rightarrow> game2048 \<Rightarrow> grid" where
  "pre_spawn_grid dir s = fst (move_rows (size_g s) (frame dir (grid s)))"

subsection \<open>Sequences of operations on one instance\<close>



text \<open>The states of an instance that is constructed, moved and reset, with any random draws.\<close>

inductive reachable :: "game2048 \<Rightarrow> bool" where
  new: "reachable (state_after (init n d1 d2))"
| moved: "reachable s \<Longrightarrow> reachable (state_after (move dir d s))"
| restarted: "reachable s \<Longrightarrow> reachable (state_after (reset d1 d2 s))"

subsection \<open>The moves as the specification words them\<close>

text \<open>
  A transformation of the grid, the left move, and a transformation back; the moved result is
  that of the left move.
\<close>

definition conjugated ::
  "(grid \<Rightarrow> grid) \<Rightarrow> (grid \<Rightarrow> grid) \<Rightarrow> draw \<Rightarrow> game2048 \<Rightarrow> bool outcome" where
  "conjugated pre post d s =
     (case move_left d (s\<lparr>grid := pre (grid s)\<rparr>) of
        Inl x \<Rightarrow> Inl x
      | Inr (moved, s') \<Rightarrow> Inr (moved, s'\<lparr>grid := post (grid s')\<rparr>))"

text \<open>Right: reverse-rows, left, reverse-rows.\<close>

definition spec_right :: "draw \<Rightarrow> game2048 \<Rightarrow> bool outcome" where
  "spec_right = conjugated (map rev) (map rev)"

text \<open>Up: transpose, left, transpose.\<close>

definition spec_up :: "draw \<Rightarrow> game2048 \<Rightarrow> bool outcome" where
  "spec_up = conjugated transpose transpose"

text \<open>Down: transpose, reverse-rows, left, reverse-rows, transpose.\<close>

definition spec_down :: "draw \<Rightarrow> game2048 \<Rightarrow> bool outcome" where
  "spec_down = conjugated (map rev \<circ> transpose) (transpose \<circ> map rev)"

subsection \<open>The score and the merges, in the words of the specification\<close>

text \<open>The values of the cells that hold a positive integer, row by row; a marker is no
  integer and an empty cell is not positive.\<close>

definition positive_values :: "grid \<Rightarrow> int list" where
  "positive_values g = [v. row \<leftarrow> g, Num v \<leftarrow> row, 0 < v]"

text \<open>
  The values that the merges of one compacted row produce, in the words of the
  specification: the row is scanned left to right, two adjacent equal numbers merge into
  double the value, two adjacent markers merge into nothing, a number and a marker do not
  merge, and a tile takes part in at most one merge.
\<close>

fun merge_results :: "cell list \<Rightarrow> int list" where
  "merge_results (Num a # Num b # rest) =
     (if a = b then 2 * a # merge_results rest else merge_results (Num b # rest))"
| "merge_results (M # M # rest) = merge_results rest"
| "merge_results (x # rest) = merge_results rest"
| "merge_results [] = []"

text \<open>Some merge of the row, its empty cells removed, produces exactly \<open>v\<close>.\<close>

definition merge_produces :: "int \<Rightarrow> cell list \<Rightarrow> bool" where
  "merge_produces v row = (v \<in> set (merge_results (filter (\<lambda>c. c \<noteq> Num 0) row)))"

section \<open>Properties of the model\<close>

subsection \<open>One row of a move\<close>

lemma nz_simps [simp]: "nz [] = 0" "nz (x # xs) = (if x = Num 0 then 0 else 1) + nz xs"
  by (simp_all add: nz_def)

lemma nz_le_length: "nz xs \<le> length xs"
  by (simp add: nz_def)

lemma nz_append: "nz (xs @ ys) = nz xs + nz ys"
  by (simp add: nz_def)

lemma nz_replicate_0: "nz (replicate k (Num 0)) = 0"
  by (simp add: nz_def)

lemma nz_eq_length: "nz xs = length xs \<longleftrightarrow> Num 0 \<notin> set xs"
proof (induction xs)
  case Nil
  show ?case by simp
next
  case (Cons x xs)
  with nz_le_length [of xs] show ?case by auto
qed

lemma compact_filter: "compact row = filter (\<lambda>v. v \<noteq> Num 0) row"
  by (induction row) auto

lemma length_compact: "length (compact row) = nz row"
  by (simp add: compact_filter nz_def)

lemma compact_id: "Num 0 \<notin> set row \<Longrightarrow> compact row = row"
  by (induction row) auto

lemma length_merge_row: "length (fst (merge_row xs)) \<le> length xs"
  by (induction xs rule: merge_row.induct) (auto split: prod.splits)

lemma merge_row_cases:
  "(fst (merge_row xs) = xs \<and> snd (merge_row xs) = (False, False))
   \<or> nz (fst (merge_row xs)) < length xs"
proof (induction xs rule: merge_row.induct)
  case 1
  show ?case by simp
next
  case (2 x)
  show ?case by simp
next
  case (3 x y zs)
  have le: "nz (fst (merge_row zs)) \<le> length zs"
    using nz_le_length [of "fst (merge_row zs)"] length_merge_row [of zs] by linarith
  show ?case
  proof (cases "x = y \<and> x \<noteq> M")
    case True
    with le show ?thesis by (auto split: prod.splits)
  next
    case False
    note nomerge = this
    show ?thesis
    proof (cases "x = M \<and> y = M")
      case True
      with le show ?thesis by (auto split: prod.splits)
    next
      case False
      with nomerge 3(3) show ?thesis by (auto split: prod.splits)
    qed
  qed
qed

lemma merge_flags_nz:
  "fst (snd (merge_row xs)) \<or> snd (snd (merge_row xs)) \<Longrightarrow> nz (fst (merge_row xs)) < length xs"
  using merge_row_cases [of xs] by auto

lemma length_merged_row:
  "length row \<le> nat n \<Longrightarrow> length (merged_row n row) = nat n"
proof -
  assume a: "length row \<le> nat n"
  have "length (fst (merge_row (compact row))) \<le> length row"
    using length_merge_row [of "compact row"] nz_le_length [of row]
    by (simp add: length_compact)
  with a show ?thesis by (simp add: merged_row_def Let_def)
qed

lemma nz_merged_row: "nz (merged_row n row) = nz (fst (merge_row (compact row)))"
  by (simp add: merged_row_def Let_def nz_append nz_replicate_0)

lemma nz_compact: "nz (compact row) = nz row"
  by (simp add: compact_filter nz_def)

text \<open>A merge in a row changes the row.\<close>

lemma merge_changes_row:
  assumes "fst (snd (merge_row (compact row))) \<or> snd (snd (merge_row (compact row)))"
  shows "merged_row n row \<noteq> row"
proof
  assume eq: "merged_row n row = row"
  from merge_flags_nz [OF assms]
  have "nz (merged_row n row) < nz row"
    by (simp add: nz_merged_row length_compact)
  with eq show False by simp
qed

text \<open>A row of the right length that changes has an empty cell afterwards.\<close>

lemma changed_row_has_empty:
  assumes len: "length row = nat n" and ch: "merged_row n row \<noteq> row"
  shows "Num 0 \<in> set (merged_row n row)"
proof -
  have lm: "length (merged_row n row) = nat n"
    using len by (simp add: length_merged_row)
  from merge_row_cases [of "compact row"]
  show ?thesis
  proof
    assume same: "fst (merge_row (compact row)) = compact row
                  \<and> snd (merge_row (compact row)) = (False, False)"
    have "Num 0 \<in> set row"
    proof (rule ccontr)
      assume "Num 0 \<notin> set row"
      then have "compact row = row" by (rule compact_id)
      with same len have "merged_row n row = row"
        by (simp add: merged_row_def Let_def)
      with ch show False by simp
    qed
    then have "nz row < length row"
      using nz_eq_length [of row] nz_le_length [of row] by auto
    with same len show ?thesis
      by (simp add: merged_row_def Let_def length_compact)
  next
    assume "nz (fst (merge_row (compact row))) < length (compact row)"
    then have "nz (merged_row n row) < length (merged_row n row)"
      using nz_le_length [of row] len lm by (simp add: nz_merged_row length_compact)
    then show ?thesis
      using nz_eq_length [of "merged_row n row"] by auto
  qed
qed

text \<open>The loop over the rows, as maps over the grid.\<close>

lemma move_rows_eq:
  "move_rows n g =
     (map (merged_row n) g,
      list_ex (\<lambda>row. merged_row n row \<noteq> row) g,
      list_ex (\<lambda>row. snd (snd (merge_row (compact row)))) g,
      list_ex (\<lambda>row. fst (snd (merge_row (compact row)))) g)"
  by (induction g) (auto split: prod.splits)

lemma special_implies_moved:
  "list_ex (\<lambda>row. snd (snd (merge_row (compact row)))) g \<Longrightarrow>
   list_ex (\<lambda>row. merged_row n row \<noteq> row) g"
  unfolding list_ex_iff using merge_changes_row by blast

lemma win_implies_moved:
  "list_ex (\<lambda>row. fst (snd (merge_row (compact row)))) g \<Longrightarrow>
   list_ex (\<lambda>row. merged_row n row \<noteq> row) g"
  unfolding list_ex_iff using merge_changes_row by blast

subsection \<open>Reading a well-formed grid\<close>

lemma wf_grid_nth:
  "wf_grid n g \<Longrightarrow> i < nat n \<Longrightarrow> length (g ! i) = nat n"
  by (simp add: wf_grid_def list_all_length)

lemma cell_at_wf:
  "wf_grid n g \<Longrightarrow> i < nat n \<Longrightarrow> j < nat n \<Longrightarrow> cell_at g i j = Inr (g ! i ! j)"
  by (simp add: cell_at_def wf_grid_def list_all_length)

lemma same_at_wf:
  "wf_grid n g \<Longrightarrow> i < nat n \<Longrightarrow> j < nat n \<Longrightarrow> same_at g i j c = Inr (g ! i ! j = c)"
  by (simp add: same_at_def cell_at_wf)

lemma in_range_simps [simp]:
  "in_range n []"
  "in_range n ((i, j) # ps) = (i < nat n \<and> j < nat n \<and> in_range n ps)"
  by (auto simp: in_range_def)

lemma in_range_cells_range: "in_range n (cells_range n)"
  by (auto simp: in_range_def cells_range_def)

lemma empty_cells_of_wf:
  "wf_grid n g \<Longrightarrow> in_range n ps \<Longrightarrow>
   empty_cells_of g ps = Inr (filter (\<lambda>p. g ! fst p ! snd p = Num 0) ps)"
  by (induction ps) (auto simp: cell_at_wf)

lemma m_positions_of_wf:
  "wf_grid n g \<Longrightarrow> in_range n ps \<Longrightarrow>
   m_positions_of g ps = Inr (filter (\<lambda>p. g ! fst p ! snd p = M) ps)"
  by (induction ps) (auto simp: cell_at_wf)

lemma wf_grid_cell_iff:
  assumes "wf_grid n g"
  shows "(\<exists>row \<in> set g. c \<in> set row) \<longleftrightarrow> (\<exists>i < nat n. \<exists>j < nat n. g ! i ! j = c)"
proof
  assume "\<exists>row \<in> set g. c \<in> set row"
  then obtain row where r: "row \<in> set g" and c: "c \<in> set row" by blast
  from r obtain i where i: "i < length g" "g ! i = row" by (auto simp: in_set_conv_nth)
  from c obtain j where j: "j < length row" "row ! j = c" by (auto simp: in_set_conv_nth)
  from assms i j have "i < nat n" "j < nat n" "g ! i ! j = c"
    by (auto simp: wf_grid_def list_all_length)
  then show "\<exists>i < nat n. \<exists>j < nat n. g ! i ! j = c" by blast
next
  assume "\<exists>i < nat n. \<exists>j < nat n. g ! i ! j = c"
  then obtain i j where ij: "i < nat n" "j < nat n" "g ! i ! j = c" by blast
  with assms have "g ! i \<in> set g" "c \<in> set (g ! i)"
    by (auto simp: wf_grid_def list_all_length)
  then show "\<exists>row \<in> set g. c \<in> set row" by blast
qed

lemma scan_cells_wf:
  assumes wf: "wf_grid n g" and nm: "no_marker g"
  shows "in_range n ps \<Longrightarrow>
         scan_cells n g ps =
           Inr (\<forall>p \<in> set ps. (snd p + 1 < nat n \<longrightarrow> g ! fst p ! snd p \<noteq> g ! fst p ! (snd p + 1))
                            \<and> (fst p + 1 < nat n \<longrightarrow> g ! fst p ! snd p \<noteq> g ! (fst p + 1) ! snd p))"
proof (induction ps)
  case Nil
  show ?case by simp
next
  case (Cons p ps)
  obtain i j where p: "p = (i, j)" by (cases p)
  from Cons.prems p have ij: "i < nat n" "j < nat n" and rest: "in_range n ps" by simp_all
  have notM: "g ! i ! j \<noteq> M"
    using wf_grid_cell_iff [OF wf, of M] nm ij by (auto simp: no_marker_def)
  have r: "int j + 1 < n \<longleftrightarrow> j + 1 < nat n" by linarith
  have b: "int i + 1 < n \<longleftrightarrow> i + 1 < nat n" by linarith
  show ?case
    using Cons.IH [OF rest] ij notM
    by (auto simp: p cell_at_wf [OF wf] same_at_wf [OF wf] r b)
qed

lemma set_cells_range: "set (cells_range n) = {..<nat n} \<times> {..<nat n}"
  by (auto simp: cells_range_def)

lemma is_game_over_wf:
  assumes "wf s"
  shows "is_game_over s =
           Inr (no_empty_cell (grid s) \<and> no_marker (grid s)
                \<and> no_equal_neighbours (nat (size_g s)) (grid s))"
proof (cases "no_empty_cell (grid s) \<and> no_marker (grid s)")
  case False
  then have "list_ex (\<lambda>row. Num 0 \<in> set row \<or> M \<in> set row) (grid s)"
    by (auto simp: list_ex_iff no_empty_cell_def no_marker_def)
  with False show ?thesis by (auto simp: is_game_over_def)
next
  case True
  then have "\<not> list_ex (\<lambda>row. Num 0 \<in> set row \<or> M \<in> set row) (grid s)"
    by (auto simp: list_ex_iff no_empty_cell_def no_marker_def)
  moreover have "scan_cells (size_g s) (grid s) (cells_range (size_g s)) =
                 Inr (no_equal_neighbours (nat (size_g s)) (grid s))"
    using assms True
    by (subst scan_cells_wf [where n = "size_g s"])
       (auto simp: wf_def in_range_cells_range set_cells_range no_equal_neighbours_def)
  ultimately show ?thesis using True by (simp add: is_game_over_def)
qed

subsection \<open>Transposition and reversal of well-formed grids\<close>

lemma wf_grid_Nil: "wf_grid n [] \<longleftrightarrow> nat n = 0"
  by (auto simp: wf_grid_def)

lemma Min_lengths:
  assumes "wf_grid n g" "g \<noteq> []"
  shows "Min (set (map length g)) = nat n"
proof -
  from assms have "set (map length g) = {nat n}"
    by (cases g) (auto simp: wf_grid_def list_all_iff)
  then show ?thesis by simp
qed

lemma zip_star_wf:
  assumes "wf_grid n g"
  shows "zip_star g = map (\<lambda>j. map (\<lambda>row. row ! j) g) [0..<nat n]"
proof (cases "g = []")
  case True
  with assms show ?thesis by (simp add: zip_star_def wf_grid_Nil)
next
  case False
  with Min_lengths [OF assms False] show ?thesis by (simp add: zip_star_def)
qed

lemma wf_grid_zip_star: "wf_grid n g \<Longrightarrow> wf_grid n (zip_star g)"
  by (simp add: zip_star_wf) (simp add: wf_grid_def list_all_iff)

lemma zip_star_nth:
  "wf_grid n g \<Longrightarrow> i < nat n \<Longrightarrow> j < nat n \<Longrightarrow> zip_star g ! i ! j = g ! j ! i"
  by (simp add: zip_star_wf) (simp add: wf_grid_def)

lemma wf_grid_eqI:
  assumes "wf_grid n g" "wf_grid n h"
    and "\<And>i j. i < nat n \<Longrightarrow> j < nat n \<Longrightarrow> g ! i ! j = h ! i ! j"
  shows "g = h"
proof (rule nth_equalityI)
  show "length g = length h" using assms by (simp add: wf_grid_def)
next
  fix i assume "i < length g"
  with assms(1) have i: "i < nat n" by (simp add: wf_grid_def)
  show "g ! i = h ! i"
  proof (rule nth_equalityI)
    show "length (g ! i) = length (h ! i)"
      using assms(1,2) i by (simp add: wf_grid_nth)
  next
    fix j assume "j < length (g ! i)"
    with assms(1) i have "j < nat n" by (simp add: wf_grid_nth)
    with i show "g ! i ! j = h ! i ! j" by (rule assms(3))
  qed
qed

lemma zip_star_zip_star:
  assumes "wf_grid n g"
  shows "zip_star (zip_star g) = g"
proof (rule wf_grid_eqI [where n = n])
  show "wf_grid n (zip_star (zip_star g))"
    using assms by (intro wf_grid_zip_star)
  show "wf_grid n g" by (rule assms)
  fix i j assume "i < nat n" "j < nat n"
  then show "zip_star (zip_star g) ! i ! j = g ! i ! j"
    using zip_star_nth [OF wf_grid_zip_star [OF assms], of i j] zip_star_nth [OF assms, of j i]
    by simp
qed

lemma zip_star_transpose:
  assumes "wf_grid n g"
  shows "zip_star g = transpose g"
proof -
  have "transpose g = map (\<lambda>i. map (\<lambda>j. g ! j ! i) [0..<length g]) [0..<nat n]"
    using assms by (intro transpose_rectangle) (auto simp: wf_grid_def list_all_length)
  also have "\<dots> = map (\<lambda>j. map (\<lambda>row. row ! j) g) [0..<nat n]"
    by (auto intro!: nth_equalityI)
  finally show ?thesis using assms by (simp add: zip_star_wf)
qed

lemma wf_grid_reverse_rows: "wf_grid n g \<Longrightarrow> wf_grid n (reverse_rows g)"
  by (simp add: wf_grid_def reverse_rows_def list_all_iff)

lemma reverse_rows_reverse_rows: "reverse_rows (reverse_rows g) = g"
  by (simp add: reverse_rows_def comp_def)

subsection \<open>The score of a grid\<close>

lemma calculate_total_score_alt:
  "calculate_total_score g = sum_list (map (\<lambda>row. sum_list (map cell_score row)) g)"
  by (simp add: calculate_total_score_def cell_score_def [abs_def])

lemma score_reverse_rows: "calculate_total_score (reverse_rows g) = calculate_total_score g"
  by (simp add: calculate_total_score_alt reverse_rows_def comp_def rev_map [symmetric])

lemma score_wf_sum:
  assumes "wf_grid n g"
  shows "calculate_total_score g = (\<Sum>i<nat n. \<Sum>j<nat n. cell_score (g ! i ! j))"
proof -
  have row: "sum_list (map cell_score (g ! i)) = (\<Sum>j<nat n. cell_score (g ! i ! j))"
    if "i < nat n" for i
    using wf_grid_nth [OF assms that]
    by (simp add: sum_list_sum_nth atLeast0LessThan)
  have "calculate_total_score g = (\<Sum>i<length g. sum_list (map cell_score (g ! i)))"
    by (simp add: calculate_total_score_alt sum_list_sum_nth atLeast0LessThan)
  also have "\<dots> = (\<Sum>i<nat n. \<Sum>j<nat n. cell_score (g ! i ! j))"
    using assms by (simp add: wf_grid_def row)
  finally show ?thesis .
qed

lemma score_zip_star:
  assumes "wf_grid n g"
  shows "calculate_total_score (zip_star g) = calculate_total_score g"
proof -
  have "calculate_total_score (zip_star g) = (\<Sum>i<nat n. \<Sum>j<nat n. cell_score (g ! j ! i))"
    using assms by (simp add: score_wf_sum [OF wf_grid_zip_star] zip_star_nth)
  also have "\<dots> = (\<Sum>j<nat n. \<Sum>i<nat n. cell_score (g ! j ! i))"
    by (rule sum.swap)
  finally show ?thesis using assms by (simp add: score_wf_sum)
qed

subsection \<open>What the methods leave alone\<close>

lemma keeps_refl [simp]: "keeps s s"
  by (simp add: keeps_def)

lemma grows_refl [simp]: "grows s s"
  by (simp add: grows_def)

lemma keeps_trans: "keeps s t \<Longrightarrow> keeps t u \<Longrightarrow> keeps s u"
  by (simp add: keeps_def)

lemma grows_trans: "grows s t \<Longrightarrow> grows t u \<Longrightarrow> grows s u"
  by (auto simp: grows_def)

lemma keeps_grows: "keeps s t \<Longrightarrow> grows s t"
  by (simp add: keeps_def grows_def)

lemma state_after_simps [simp]:
  "state_after (Inl (e, s)) = s" "state_after (Inr (v, s)) = s"
  by (simp_all add: state_after_def)

lemma keeps_add_new_tile: "keeps s (state_after (add_new_tile d s))"
  by (auto simp: add_new_tile_def keeps_def split: sum.splits prod.splits)

lemma keeps_check_game_over: "keeps s (state_after (check_game_over s))"
  by (auto simp: check_game_over_def keeps_def split: sum.splits)

lemma keeps_clear_one: "keeps s (state_after (clear_one p off s))"
  by (auto simp: clear_one_def keeps_def Let_def split: sum.splits cell.splits)

lemma keeps_clear_all: "keeps s (state_after (clear_all ps s))"
proof (induction ps arbitrary: s)
  case Nil
  show ?case by simp
next
  case (Cons a ps)
  obtain p off where a: "a = (p, off)" by (cases a)
  show ?case
  proof (cases "clear_one p off s")
    case (Inl x)
    with keeps_clear_one [of s p off] show ?thesis by (cases x) (simp add: a)
  next
    case (Inr y)
    obtain u s1 where y: "y = (u, s1)" by (cases y)
    from Inr y keeps_clear_one [of s p off] have "keeps s s1" by simp
    with Cons.IH [of s1] show ?thesis by (simp add: a Inr y keeps_trans)
  qed
qed

lemma keeps_clear_surrounding_tiles: "keeps s (state_after (clear_surrounding_tiles s))"
  by (auto simp: clear_surrounding_tiles_def keeps_clear_all split: sum.splits)

lemma grows_update_score: "grows s (update_score s)"
  by (simp add: update_score_def grows_def Let_def)

lemma grid_update_score [simp]: "grid (update_score s) = grid s"
  by (simp add: update_score_def Let_def)

lemma size_update_score [simp]: "size_g (update_score s) = size_g s"
  by (simp add: update_score_def Let_def)

lemma score_update_score [simp]: "score (update_score s) = calculate_total_score (grid s)"
  by (simp add: update_score_def Let_def)

lemma grows_grid_update [simp]: "grows s (t\<lparr>grid := g\<rparr>) = grows s t"
  by (simp add: grows_def)

lemma grows_move_left: "grows (win_set s) (state_after (move_left d s))"
proof -
  obtain new_grid moved special_merged w
    where mr: "move_rows (size_g s) (grid s) = (new_grid, moved, special_merged, w)"
    by (cases "move_rows (size_g s) (grid s)") auto
  define s1 where "s1 = (if w \<and> \<not> won s then s\<lparr>won := True\<rparr> else s)"
  have w: "w = list_ex produces_2048 (grid s)"
    using mr by (simp add: move_rows_eq produces_2048_def [abs_def])
  have s1: "win_set s = s1" by (simp add: win_set_def s1_def w)
  have "grows s1 (state_after (move_left d s))"
  proof (cases "moved \<or> special_merged")
    case False
    with mr show ?thesis by (simp add: move_left_def s1_def)
  next
    case True
    define r2 where "r2 = (if special_merged then clear_surrounding_tiles s1 else Inr ((), s1))"
    have k2: "keeps s1 (state_after r2)"
      by (simp add: r2_def keeps_clear_surrounding_tiles)
    show ?thesis
    proof (cases r2)
      case (Inl x)
      with k2 mr True show ?thesis
        by (cases x) (auto simp: move_left_def s1_def [symmetric] r2_def [symmetric]
            intro: keeps_grows)
    next
      case (Inr y)
      obtain u s2 where y: "y = (u, s2)" by (cases y)
      from k2 Inr y have g2: "grows s1 s2"
        by (auto intro: keeps_grows)
      define s2' where "s2' = s2\<lparr>grid := new_grid, moves := moves s2 + 1\<rparr>"
      have g2': "grows s1 s2'" using g2 by (simp add: s2'_def grows_def)
      have ml: "move_left d s =
                  (case add_new_tile d s2' of
                     Inl x \<Rightarrow> Inl x
                   | Inr (spawned, s3) \<Rightarrow>
                       (case check_game_over (update_score s3) of
                          Inl x \<Rightarrow> Inl x
                        | Inr (over, s4) \<Rightarrow> Inr (True, s4)))"
        using mr True Inr y
        by (simp add: move_left_def s1_def [symmetric] r2_def [symmetric] s2'_def)
      show ?thesis
      proof (cases "add_new_tile d s2'")
        case (Inl x)
        with keeps_add_new_tile [of s2' d] g2' ml show ?thesis
          by (cases x) (auto intro: grows_trans keeps_grows)
      next
        case (Inr z)
        obtain spawned s3 where z: "z = (spawned, s3)" by (cases z)
        from keeps_add_new_tile [of s2' d] Inr z g2' have g3: "grows s1 s3"
          by (auto intro: grows_trans keeps_grows)
        from g3 grows_update_score [of s3] have g3': "grows s1 (update_score s3)"
          by (rule grows_trans)
        from keeps_check_game_over [of "update_score s3"] g3'
        have "grows s1 (state_after (check_game_over (update_score s3)))"
          by (auto intro: grows_trans keeps_grows)
        with ml Inr z show ?thesis
          by (cases "check_game_over (update_score s3)") (auto split: prod.splits)
      qed
    qed
  qed
  with s1 show ?thesis by simp
qed

subsection \<open>Well-formed states: no method raises\<close>

lemma wf_grid_update:
  "wf_grid n g \<Longrightarrow> wf_grid n (g[i := (g ! i)[j := c]])"
  by (cases "i < length g")
     (auto simp: wf_grid_def list_all_length nth_list_update)

lemma wf_grid_empty_grid: "wf_grid n (empty_grid n)"
  by (simp add: wf_grid_def empty_grid_def list_all_length)

lemma wf_update_score [simp]: "wf (update_score s) = wf s"
  by (simp add: wf_def)

lemma empty_cells_Nil_iff:
  assumes "wf_grid n g"
  shows "filter (\<lambda>p. g ! fst p ! snd p = Num 0) (cells_range n) = [] \<longleftrightarrow> no_empty_cell g"
proof -
  have "filter (\<lambda>p. g ! fst p ! snd p = Num 0) (cells_range n) = []
        \<longleftrightarrow> \<not> (\<exists>i < nat n. \<exists>j < nat n. g ! i ! j = Num 0)"
    by (auto simp: filter_empty_conv set_cells_range)
  also have "\<dots> \<longleftrightarrow> no_empty_cell g"
    using wf_grid_cell_iff [OF assms, of "Num 0"] by (auto simp: no_empty_cell_def)
  finally show ?thesis .
qed

lemma is_game_over_terminal: "wf s \<Longrightarrow> is_game_over s = Inr (terminal s)"
  by (simp add: is_game_over_wf terminal_def)

lemma add_new_tile_full:
  assumes "wf s" "no_empty_cell (grid s)"
  shows "add_new_tile d s = Inr (False, if terminal s then s\<lparr>game_over := True\<rparr> else s)"
proof -
  from assms(1) have wfg: "wf_grid (size_g s) (grid s)" by (simp add: wf_def)
  have "empty_cells_of (grid s) (cells_range (size_g s)) = Inr []"
    using empty_cells_of_wf [OF wfg in_range_cells_range] empty_cells_Nil_iff [OF wfg] assms(2)
    by simp
  then show ?thesis
    by (simp add: add_new_tile_def is_game_over_terminal [OF assms(1)])
qed

lemma add_new_tile_spawns:
  assumes "wf s" "\<not> no_empty_cell (grid s)"
  shows "\<exists>i j v. i < nat (size_g s) \<and> j < nat (size_g s) \<and> grid s ! i ! j = Num 0
           \<and> (v = 2 \<or> v = 4)
           \<and> add_new_tile d s =
               Inr (True, s\<lparr>grid := (grid s)[i := (grid s ! i)[j := Num v]]\<rparr>)"
proof -
  from assms(1) have wfg: "wf_grid (size_g s) (grid s)" by (simp add: wf_def)
  define E where "E = filter (\<lambda>p. grid s ! fst p ! snd p = Num 0) (cells_range (size_g s))"
  have ec: "empty_cells_of (grid s) (cells_range (size_g s)) = Inr E"
    using empty_cells_of_wf [OF wfg in_range_cells_range] by (simp add: E_def)
  have ne: "E \<noteq> []"
    using empty_cells_Nil_iff [OF wfg] assms(2) by (simp add: E_def)
  obtain i j where ij: "E ! (pick d mod length E) = (i, j)"
    by (cases "E ! (pick d mod length E)")
  from ne have "E ! (pick d mod length E) \<in> set E" by simp
  with ij have "(i, j) \<in> set E" by simp
  then have props: "i < nat (size_g s)" "j < nat (size_g s)" "grid s ! i ! j = Num 0"
    by (auto simp: E_def set_cells_range)
  define v :: int where "v = (if rand d < 9 / 10 then 2 else 4)"
  have v: "v = 2 \<or> v = 4" by (simp add: v_def)
  have "add_new_tile d s =
          Inr (True, s\<lparr>grid := (grid s)[i := (grid s ! i)[j := Num v]]\<rparr>)"
    using ec ne ij by (simp add: add_new_tile_def v_def)
  with props v show ?thesis
    by (intro exI [of _ i] exI [of _ j] exI [of _ v]) simp
qed

lemma add_new_tile_wf:
  assumes "wf s"
  shows "\<exists>b s'. add_new_tile d s = Inr (b, s') \<and> wf s' \<and> (b \<longleftrightarrow> \<not> no_empty_cell (grid s))"
proof (cases "no_empty_cell (grid s)")
  case True
  from add_new_tile_full [OF assms True, of d] True assms show ?thesis
    by (cases "terminal s") (auto simp: wf_def)
next
  case False
  from add_new_tile_spawns [OF assms False, of d]
  obtain i j v where "add_new_tile d s =
      Inr (True, s\<lparr>grid := (grid s)[i := (grid s ! i)[j := Num v]]\<rparr>)" by blast
  with False assms show ?thesis
    by (auto simp: wf_def wf_grid_update)
qed

lemma check_game_over_wf:
  assumes "wf s"
  shows "check_game_over s = Inr (terminal s, s\<lparr>game_over := game_over s \<or> terminal s\<rparr>)"
  by (cases "terminal s") (simp_all add: check_game_over_def is_game_over_terminal [OF assms])

lemma clear_one_wf:
  assumes "wf s"
  shows "\<exists>s'. clear_one p off s = Inr ((), s') \<and> wf s' \<and> size_g s' = size_g s"
proof -
  from assms have wfg: "wf_grid (size_g s) (grid s)" by (simp add: wf_def)
  show ?thesis
  proof (cases "0 \<le> int (fst p) + fst off \<and> int (fst p) + fst off < size_g s
                \<and> 0 \<le> int (snd p) + snd off \<and> int (snd p) + snd off < size_g s")
    case False
    with assms show ?thesis by (auto simp: clear_one_def Let_def)
  next
    case True
    then have "nat (int (fst p) + fst off) < nat (size_g s)"
              "nat (int (snd p) + snd off) < nat (size_g s)" by linarith+
    from cell_at_wf [OF wfg this] True wfg show ?thesis
      by (cases "grid s ! nat (int (fst p) + fst off) ! nat (int (snd p) + snd off)")
         (simp_all add: clear_one_def Let_def wf_def wf_grid_update)
  qed
qed

lemma clear_all_wf:
  "wf s \<Longrightarrow> \<exists>s'. clear_all ps s = Inr ((), s') \<and> wf s' \<and> size_g s' = size_g s"
proof (induction ps arbitrary: s)
  case Nil
  then show ?case by simp
next
  case (Cons a ps)
  obtain p off where a: "a = (p, off)" by (cases a)
  from clear_one_wf [OF Cons.prems, of p off]
  obtain s1 where s1: "clear_one p off s = Inr ((), s1)" "wf s1" "size_g s1 = size_g s"
    by blast
  from Cons.IH [OF s1(2)] s1 show ?case by (auto simp: a)
qed

lemma clear_surrounding_tiles_wf:
  assumes "wf s"
  shows "\<exists>s'. clear_surrounding_tiles s = Inr ((), s') \<and> wf s' \<and> size_g s' = size_g s"
proof -
  from assms have wfg: "wf_grid (size_g s) (grid s)" by (simp add: wf_def)
  from m_positions_of_wf [OF wfg in_range_cells_range] clear_all_wf [OF assms]
  show ?thesis by (simp add: clear_surrounding_tiles_def)
qed

lemma wf_grid_merged:
  "wf_grid n g \<Longrightarrow> wf_grid n (map (merged_row n) g)"
  by (simp add: wf_grid_def list_all_iff length_merged_row)

lemma slid_has_empty:
  assumes "wf_grid n g" "list_ex (\<lambda>row. merged_row n row \<noteq> row) g"
  shows "\<not> no_empty_cell (map (merged_row n) g)"
proof -
  from assms(2) obtain row where r: "row \<in> set g" "merged_row n row \<noteq> row"
    by (auto simp: list_ex_iff)
  with assms(1) have "length row = nat n" by (simp add: wf_grid_def list_all_iff)
  from changed_row_has_empty [OF this r(2)] r(1) show ?thesis
    by (auto simp: no_empty_cell_def)
qed

lemma move_left_unmoved:
  assumes "\<not> list_ex (\<lambda>row. merged_row (size_g s) row \<noteq> row) (grid s)"
  shows "move_left d s = Inr (False, s)"
proof -
  from assms special_implies_moved [of "grid s" "size_g s"]
  have sp: "\<not> list_ex (\<lambda>row. snd (snd (merge_row (compact row)))) (grid s)" by blast
  from assms win_implies_moved [of "grid s" "size_g s"]
  have w: "\<not> list_ex (\<lambda>row. fst (snd (merge_row (compact row)))) (grid s)" by blast
  from assms sp w show ?thesis
    by (simp add: move_left_def move_rows_eq)
qed

lemma move_left_moved:
  assumes wf: "wf s" and ch: "list_ex (\<lambda>row. merged_row (size_g s) row \<noteq> row) (grid s)"
  shows "\<exists>s2 s3 over s4.
           size_g s2 = size_g s \<and> grid s2 = map (merged_row (size_g s)) (grid s) \<and> wf s2
           \<and> add_new_tile d s2 = Inr (True, s3) \<and> wf s3
           \<and> check_game_over (update_score s3) = Inr (over, s4)
           \<and> wf s4 \<and> score s4 = calculate_total_score (grid s4)
           \<and> move_left d s = Inr (True, s4)"
proof -
  define w where "w = list_ex (\<lambda>row. fst (snd (merge_row (compact row)))) (grid s)"
  define sp where "sp = list_ex (\<lambda>row. snd (snd (merge_row (compact row)))) (grid s)"
  define new_grid where "new_grid = map (merged_row (size_g s)) (grid s)"
  define s1 where "s1 = (if w \<and> \<not> won s then s\<lparr>won := True\<rparr> else s)"
  have mr: "move_rows (size_g s) (grid s) = (new_grid, True, sp, w)"
    using ch by (simp add: move_rows_eq new_grid_def sp_def w_def)
  have wf1: "wf s1" and sz1: "size_g s1 = size_g s"
    using wf by (simp_all add: s1_def wf_def)
  obtain s2' where s2': "(if sp then clear_surrounding_tiles s1 else Inr ((), s1)) = Inr ((), s2')"
      "wf s2'" "size_g s2' = size_g s1"
    using clear_surrounding_tiles_wf [OF wf1] wf1 by (cases sp) auto
  define s2 where "s2 = s2'\<lparr>grid := new_grid, moves := moves s2' + 1\<rparr>"
  have wfn: "wf_grid (size_g s) new_grid"
    using wf by (simp add: new_grid_def wf_def wf_grid_merged)
  have wf2: "wf s2" and sz2: "size_g s2 = size_g s" and g2: "grid s2 = new_grid"
    using wfn s2'(3) sz1 by (simp_all add: s2_def wf_def)
  have "\<not> no_empty_cell (grid s2)"
    using slid_has_empty [OF _ ch] wf by (simp add: g2 new_grid_def wf_def)
  with add_new_tile_wf [OF wf2, of d]
  obtain s3 where s3: "add_new_tile d s2 = Inr (True, s3)" "wf s3" by auto
  define s4 where "s4 = (update_score s3)\<lparr>game_over := game_over (update_score s3)
                                           \<or> terminal (update_score s3)\<rparr>"
  have c4: "check_game_over (update_score s3) = Inr (terminal (update_score s3), s4)"
    using s3(2) by (simp add: check_game_over_wf s4_def)
  have wf4: "wf s4" and sc4: "score s4 = calculate_total_score (grid s4)"
    using s3(2) by (simp_all add: s4_def wf_def)
  have "move_left d s = Inr (True, s4)"
    using mr s2'(1) s3(1) c4
    by (simp add: move_left_def s1_def [symmetric] s2_def [symmetric])
  with sz2 g2 wf2 s3 c4 wf4 sc4 show ?thesis
    unfolding new_grid_def by blast
qed

lemma move_frame:
  "move dir d s =
     (case move_left d (s\<lparr>grid := frame dir (grid s)\<rparr>) of
        Inl x \<Rightarrow> Inl x
      | Inr (b, s1) \<Rightarrow> Inr (b, s1\<lparr>grid := unframe dir (grid s1)\<rparr>))"
  by (cases dir)
     (auto simp: move_right_def move_up_def move_down_def split: sum.splits)

lemma wf_grid_frame: "wf_grid n g \<Longrightarrow> wf_grid n (frame dir g)"
  by (cases dir) (simp_all add: wf_grid_zip_star wf_grid_reverse_rows)

lemma wf_grid_unframe: "wf_grid n g \<Longrightarrow> wf_grid n (unframe dir g)"
  by (cases dir) (simp_all add: wf_grid_zip_star wf_grid_reverse_rows)

lemma unframe_frame: "wf_grid n g \<Longrightarrow> unframe dir (frame dir g) = g"
  by (cases dir) (simp_all add: zip_star_zip_star reverse_rows_reverse_rows)

lemma score_unframe:
  "wf_grid n g \<Longrightarrow> calculate_total_score (unframe dir g) = calculate_total_score g"
proof (cases dir)
  case Down
  assume "wf_grid n g"
  from score_zip_star [OF wf_grid_reverse_rows [OF this]] Down show ?thesis
    by (simp add: score_reverse_rows)
qed (simp_all add: score_zip_star score_reverse_rows)

text \<open>A move on a well-formed state: either nothing changes, or the rows change, the spawn
  succeeds and the score is recomputed.\<close>

lemma move_wf:
  assumes wf: "wf s"
  shows "(\<not> list_ex (\<lambda>row. merged_row (size_g s) row \<noteq> row) (frame dir (grid s))
            \<and> move dir d s = Inr (False, s))
       \<or> (list_ex (\<lambda>row. merged_row (size_g s) row \<noteq> row) (frame dir (grid s))
            \<and> (\<exists>s2 s3 over s4.
                 size_g s2 = size_g s
                 \<and> grid s2 = map (merged_row (size_g s)) (frame dir (grid s)) \<and> wf s2
                 \<and> add_new_tile d s2 = Inr (True, s3)
                 \<and> check_game_over (update_score s3) = Inr (over, s4)
                 \<and> wf s4 \<and> score s4 = calculate_total_score (grid s4)
                 \<and> move dir d s = Inr (True, s4\<lparr>grid := unframe dir (grid s4)\<rparr>)))"
proof -
  define t where "t = s\<lparr>grid := frame dir (grid s)\<rparr>"
  have wft: "wf t" and szt: "size_g t = size_g s" and gt: "grid t = frame dir (grid s)"
    using wf by (simp_all add: t_def wf_def wf_grid_frame)
  show ?thesis
  proof (cases "list_ex (\<lambda>row. merged_row (size_g s) row \<noteq> row) (frame dir (grid s))")
    case False
    then have "move_left d t = Inr (False, t)"
      by (intro move_left_unmoved) (simp add: szt gt)
    moreover have "t\<lparr>grid := unframe dir (grid t)\<rparr> = s"
      using wf by (simp add: t_def wf_def unframe_frame)
    ultimately have "move dir d s = Inr (False, s)"
      by (simp add: move_frame t_def [symmetric])
    with False show ?thesis by simp
  next
    case True
    then have "list_ex (\<lambda>row. merged_row (size_g t) row \<noteq> row) (grid t)"
      by (simp add: szt gt)
    from move_left_moved [OF wft this, of d]
    obtain s2 s3 over s4 where *:
      "size_g s2 = size_g t" "grid s2 = map (merged_row (size_g t)) (grid t)" "wf s2"
      "add_new_tile d s2 = Inr (True, s3)"
      "check_game_over (update_score s3) = Inr (over, s4)"
      "wf s4" "score s4 = calculate_total_score (grid s4)"
      "move_left d t = Inr (True, s4)" by blast
    from *(8) have "move dir d s = Inr (True, s4\<lparr>grid := unframe dir (grid s4)\<rparr>)"
      by (simp add: move_frame t_def [symmetric])
    with * True show ?thesis unfolding szt gt by blast
  qed
qed

subsection \<open>Counting tiles\<close>

lemma nz_update:
  "j < length row \<Longrightarrow> row ! j = Num 0 \<Longrightarrow> c \<noteq> Num 0 \<Longrightarrow> nz (row[j := c]) = nz row + 1"
proof (induction row arbitrary: j)
  case Nil
  then show ?case by simp
next
  case (Cons x row)
  then show ?case by (cases j) auto
qed

lemma tiles_update:
  assumes "i < length g" "j < length (g ! i)" "g ! i ! j = Num 0" "c \<noteq> Num 0"
  shows "tiles (g[i := (g ! i)[j := c]]) = tiles g + 1"
proof -
  have "sum_list ((map nz g)[i := nz ((g ! i)[j := c])])
        = sum_list (map nz g) + nz ((g ! i)[j := c]) - map nz g ! i"
    using assms(1) by (intro sum_list_update) simp
  then show ?thesis
    using assms by (simp add: tiles_def map_update nz_update)
qed

lemma tiles_empty_grid: "tiles (empty_grid n) = 0"
  by (simp add: tiles_def empty_grid_def nz_replicate_0)

lemma tiles_full:
  assumes "wf_grid n g" "no_empty_cell g"
  shows "tiles g = nat n * nat n"
proof -
  have "nz row = nat n" if "row \<in> set g" for row
    using that assms nz_eq_length [of row]
    by (auto simp: wf_grid_def list_all_iff no_empty_cell_def)
  then have "map nz g = map (\<lambda>row. nat n) g" by (intro map_cong refl)
  then have "tiles g = sum_list (map (\<lambda>row. nat n) g)" by (simp only: tiles_def)
  with assms(1) show ?thesis by (simp add: wf_grid_def sum_list_triv)
qed

lemma spawned_values_update:
  assumes "spawned_values g" "c = Num 2 \<or> c = Num 4"
  shows "spawned_values (g[i := (g ! i)[j := c]])"
proof -
  have "c' = Num 0 \<or> c' = Num 2 \<or> c' = Num 4"
    if "row \<in> set (g[i := (g ! i)[j := c]])" "c' \<in> set row" for row c'
  proof (cases "i < length g")
    case False
    then have "g[i := (g ! i)[j := c]] = g" by (intro list_update_beyond) simp
    with that assms(1) show ?thesis by (auto simp: spawned_values_def)
  next
    case True
    from that(1) have "row = (g ! i)[j := c] \<or> row \<in> set g"
      using set_update_subset_insert [of g i "(g ! i)[j := c]"] by auto
    then show ?thesis
    proof
      assume "row \<in> set g"
      with assms(1) that(2) show ?thesis by (auto simp: spawned_values_def)
    next
      assume "row = (g ! i)[j := c]"
      with that(2) have "c' = c \<or> c' \<in> set (g ! i)"
        using set_update_subset_insert [of "g ! i" j c] by auto
      moreover from True have "g ! i \<in> set g" by simp
      ultimately show ?thesis using assms by (auto simp: spawned_values_def)
    qed
  qed
  then show ?thesis by (auto simp: spawned_values_def)
qed

lemma spawned_values_empty_grid: "spawned_values (empty_grid n)"
  by (auto simp: spawned_values_def empty_grid_def)

subsection \<open>Construction and reset\<close>

lemma two_tiles_wf:
  assumes "wf s"
  shows "\<exists>s'. two_tiles d1 d2 s = Inr ((), s') \<and> wf s' \<and> size_g s' = size_g s
               \<and> score s' = calculate_total_score (grid s')"
proof -
  from add_new_tile_wf [OF assms, of d1] keeps_add_new_tile [of s d1]
  obtain b1 s1 where s1: "add_new_tile d1 s = Inr (b1, s1)" "wf s1" "size_g s1 = size_g s"
    by (auto simp: keeps_def)
  from add_new_tile_wf [OF s1(2), of d2] keeps_add_new_tile [of s1 d2]
  obtain b2 s2 where s2: "add_new_tile d2 s1 = Inr (b2, s2)" "wf s2" "size_g s2 = size_g s1"
    by (auto simp: keeps_def)
  from s1 s2 show ?thesis by (simp add: two_tiles_def wf_def)
qed

lemma two_tiles_count:
  assumes wf: "wf s" and n: "2 \<le> size_g s" and e: "grid s = empty_grid (size_g s)"
  shows "\<exists>s'. two_tiles d1 d2 s = Inr ((), s') \<and> tiles (grid s') = 2
               \<and> spawned_values (grid s')"
proof -
  from wf have wfg: "wf_grid (size_g s) (grid s)" by (simp add: wf_def)
  have t0: "tiles (grid s) = 0" by (simp add: e tiles_empty_grid)
  have sq: "2 < nat (size_g s) * nat (size_g s)"
  proof -
    from n have "2 \<le> nat (size_g s)" by arith
    then have "2 * 2 \<le> nat (size_g s) * nat (size_g s)" by (intro mult_le_mono)
    then show ?thesis by simp
  qed
  have ne0: "\<not> no_empty_cell (grid s)"
    using tiles_full [OF wfg] t0 sq by auto
  from add_new_tile_spawns [OF wf ne0, of d1]
  obtain i j v where a1: "i < nat (size_g s)" "j < nat (size_g s)" "grid s ! i ! j = Num 0"
    "v = 2 \<or> v = 4"
    "add_new_tile d1 s = Inr (True, s\<lparr>grid := (grid s)[i := (grid s ! i)[j := Num v]]\<rparr>)"
    by blast
  define s1 where "s1 = s\<lparr>grid := (grid s)[i := (grid s ! i)[j := Num v]]\<rparr>"
  have wf1: "wf s1" and sz1: "size_g s1 = size_g s"
    using wfg by (simp_all add: s1_def wf_def wf_grid_update)
  have t1: "tiles (grid s1) = 1"
    using a1 wfg t0 by (auto simp: s1_def wf_grid_def list_all_length tiles_update)
  have v1: "spawned_values (grid s1)"
    using a1(4) by (auto simp: s1_def e intro!: spawned_values_update spawned_values_empty_grid)
  have ne1: "\<not> no_empty_cell (grid s1)"
    using tiles_full [of "size_g s" "grid s1"] wf1 t1 sq by (auto simp: wf_def sz1)
  from add_new_tile_spawns [OF wf1 ne1, of d2]
  obtain i' j' v' where a2: "i' < nat (size_g s1)" "j' < nat (size_g s1)"
    "grid s1 ! i' ! j' = Num 0" "v' = 2 \<or> v' = 4"
    "add_new_tile d2 s1 = Inr (True, s1\<lparr>grid := (grid s1)[i' := (grid s1 ! i')[j' := Num v']]\<rparr>)"
    by blast
  define s2 where "s2 = s1\<lparr>grid := (grid s1)[i' := (grid s1 ! i')[j' := Num v']]\<rparr>"
  have t2: "tiles (grid s2) = 2"
    using a2 wf1 t1 by (auto simp: s2_def wf_def wf_grid_def list_all_length tiles_update)
  have v2: "spawned_values (grid s2)"
    using a2(4) v1 by (auto simp: s2_def intro!: spawned_values_update)
  have "two_tiles d1 d2 s = Inr ((), update_score s2)"
    using a1(5) a2(5) by (simp add: two_tiles_def s1_def [symmetric] s2_def [symmetric])
  with t2 v2 show ?thesis by simp
qed

lemma move_left_effect:
  "size_g (state_after (move_left d s)) = size_g s
   \<and> high_score s \<le> high_score (state_after (move_left d s))
   \<and> won (state_after (move_left d s)) = (won s \<or> list_ex produces_2048 (grid s))"
  using grows_move_left [of s d] by (auto simp: grows_def win_set_def split: if_splits)

lemma state_after_move:
  "state_after (move dir d s) =
     (case move_left d (s\<lparr>grid := frame dir (grid s)\<rparr>) of
        Inl (e, s1) \<Rightarrow> s1
      | Inr (b, s1) \<Rightarrow> s1\<lparr>grid := unframe dir (grid s1)\<rparr>)"
  by (simp add: move_frame split: sum.splits prod.splits)

lemma move_effect:
  "size_g (state_after (move dir d s)) = size_g s
   \<and> high_score s \<le> high_score (state_after (move dir d s))
   \<and> won (state_after (move dir d s)) = (won s \<or> list_ex produces_2048 (frame dir (grid s)))"
  using move_left_effect [of d "s\<lparr>grid := frame dir (grid s)\<rparr>"]
  by (auto simp: state_after_move split: sum.splits prod.splits)




lemma set_state_returns:
  "set_state st s = Inr ((), s') \<Longrightarrow>
   high_score s' = max (high_score s) (case d_high_score st of None \<Rightarrow> 0 | Some h \<Rightarrow> h)
   \<and> d_won st = Some (won s')"
  by (auto simp: set_state_def Let_def split: option.splits)



lemma init_wf:
  "\<exists>s. init n d1 d2 = Inr ((), s) \<and> wf s \<and> size_g s = n
       \<and> score s = calculate_total_score (grid s)"
  using two_tiles_wf
    [of "\<lparr>size_g = n, grid = empty_grid n, score = 0, high_score = 0, moves = 0,
          game_over = False, won = False\<rparr>" d1 d2]
  by (simp add: init_def wf_def wf_grid_empty_grid)

lemma reset_wf:
  "\<exists>s'. reset d1 d2 s = Inr ((), s') \<and> wf s' \<and> size_g s' = size_g s
       \<and> score s' = calculate_total_score (grid s')"
  using two_tiles_wf
    [of "s\<lparr>grid := empty_grid (size_g s), score := 0, moves := 0,
          game_over := False, won := False\<rparr>" d1 d2]
  by (simp add: reset_def wf_def wf_grid_empty_grid)

lemma move_preserves:
  assumes "wf s" "score s = calculate_total_score (grid s)"
  shows "\<exists>b s'. move dir d s = Inr (b, s') \<and> wf s' \<and> score s' = calculate_total_score (grid s')"
proof -
  from move_wf [OF assms(1), of dir d] show ?thesis
  proof (elim disjE conjE exE)
    assume "move dir d s = Inr (False, s)"
    with assms show ?thesis by blast
  next
    fix s2 s3 over s4
    assume *: "wf s4" "score s4 = calculate_total_score (grid s4)"
      "move dir d s = Inr (True, s4\<lparr>grid := unframe dir (grid s4)\<rparr>)"
    from *(1) have wfg: "wf_grid (size_g s4) (grid s4)" by (simp add: wf_def)
    from * wfg have "wf (s4\<lparr>grid := unframe dir (grid s4)\<rparr>)"
      "score (s4\<lparr>grid := unframe dir (grid s4)\<rparr>)
       = calculate_total_score (grid (s4\<lparr>grid := unframe dir (grid s4)\<rparr>))"
      by (simp_all add: wf_def wf_grid_unframe score_unframe [OF wfg])
    with *(3) show ?thesis by blast
  qed
qed

lemma reachable_inv:
  "reachable s \<Longrightarrow> wf s \<and> score s = calculate_total_score (grid s)"
proof (induction rule: reachable.induct)
  case (new n d1 d2)
  from init_wf [of n d1 d2] show ?case by auto
next
  case (moved s dir d)
  with move_preserves [of s dir d] show ?case by auto
next
  case (restarted s d1 d2)
  from reset_wf [of d1 d2 s] show ?case by auto
qed

subsection \<open>The specification's score and merges\<close>

lemma row_positive_values:
  "sum_list (concat (map (\<lambda>x. case x of Num v \<Rightarrow> if 0 < v then [v] else [] | M \<Rightarrow> []) row))
   = sum_list (map cell_score row)"
  by (induction row) (auto simp: cell_score_def split: cell.splits)

lemma calculate_total_score_positive_values:
  "calculate_total_score g = sum_list (positive_values g)"
  by (induction g)
     (simp_all add: calculate_total_score_alt positive_values_def row_positive_values)

lemma merge_row_flag:
  "fst (snd (merge_row xs)) = (2048 \<in> set (merge_results xs))"
proof (induction xs rule: merge_row.induct)
  case 1
  show ?case by simp
next
  case (2 x)
  show ?case by (cases x) simp_all
next
  case (3 x y zs)
  show ?case
  proof (cases x)
    case (Num a)
    note x = this
    show ?thesis
    proof (cases y)
      case (Num b)
      with x 3 show ?thesis by (auto split: prod.splits)
    next
      case M
      with x 3 show ?thesis by (auto split: prod.splits)
    qed
  next
    case M
    note x = this
    show ?thesis
    proof (cases y)
      case (Num b)
      with x 3 show ?thesis by (auto split: prod.splits)
    next
      case M
      with x 3 show ?thesis by (auto split: prod.splits)
    qed
  qed
qed

lemma produces_2048_merge: "produces_2048 row = merge_produces 2048 row"
  by (simp add: produces_2048_def merge_produces_def merge_row_flag compact_filter)

lemma merge_results_in_row:
  "v \<in> set (merge_results xs) \<Longrightarrow> Num v \<in> set (fst (merge_row xs))"
proof (induction xs rule: merge_row.induct)
  case 1
  then show ?case by simp
next
  case (2 x)
  then show ?case by (cases x) simp_all
next
  case (3 x y zs)
  show ?case
  proof (cases x)
    case (Num a)
    note x = this
    show ?thesis
    proof (cases y)
      case (Num b)
      with x 3 show ?thesis by (auto split: prod.splits if_splits)
    next
      case M
      with x 3 show ?thesis by (auto split: prod.splits if_splits)
    qed
  next
    case M
    note x = this
    show ?thesis
    proof (cases y)
      case (Num b)
      with x 3 show ?thesis by (auto split: prod.splits if_splits)
    next
      case M
      with x 3 show ?thesis by (auto split: prod.splits if_splits)
    qed
  qed
qed

lemma merge_produces_in_merged_row:
  "merge_produces v row \<Longrightarrow> Num v \<in> set (merged_row n row)"
  using merge_results_in_row [of v "compact row"]
  by (simp add: merge_produces_def merged_row_def Let_def compact_filter)

lemma pre_spawn_grid_eq:
  "pre_spawn_grid dir s = map (merged_row (size_g s)) (frame dir (grid s))"
  by (simp add: pre_spawn_grid_def move_rows_eq)

lemma move_left_returns_wf:
  assumes "wf t"
  shows "\<exists>b s1. move_left d t = Inr (b, s1) \<and> wf s1 \<and> size_g s1 = size_g t"
proof -
  from move_wf [OF assms, of Left d]
  obtain b s1 where r: "move Left d t = Inr (b, s1)" "wf s1"
    by (elim disjE conjE exE) (use assms in \<open>auto simp: wf_def\<close>)
  from move_effect [of Left d t] r have "size_g s1 = size_g t" by simp
  with r show ?thesis by auto
qed

subsection \<open>Calls of the registry one after another\<close>

lemma handle_present:
  assumes "rooms sv (room_id c) = Some a" "pc c = Test"
  shows "handle_join_room c sv =
           (c\<lparr>pc := Done, joined := Some a\<rparr>,
            sv\<lparr>store := (store sv)
                   [a := (store sv ! a)\<lparr>players := insert (sid c) (players (store sv ! a))\<rparr>]\<rparr>)"
  using assms by (simp add: handle_join_room_def caller_step_def)

lemma handle_absent:
  assumes "rooms sv (room_id c) = None" "pc c = Test"
  shows "\<exists>sv'. handle_join_room c sv = (c\<lparr>pc := Done, joined := Some (length (store sv))\<rparr>, sv')
               \<and> rooms sv' (room_id c) = Some (length (store sv))
               \<and> length (store sv') = length (store sv) + 1"
  using assms by (simp add: handle_join_room_def caller_step_def)

lemma serve_present:
  assumes "rooms sv k = Some a" "\<forall>c \<in> set cs. room_id c = k \<and> pc c = Test"
    "serve cs sv = (cs', sv')"
  shows "length (store sv') = length (store sv) \<and> rooms sv' k = Some a
         \<and> (\<forall>c \<in> set cs'. pc c = Done \<and> joined c = Some a)"
  using assms
proof (induction cs arbitrary: sv cs' sv')
  case Nil
  then show ?case by simp
next
  case (Cons c cs)
  from Cons.prems(2) have c: "room_id c = k" "pc c = Test"
    and rest: "\<forall>c \<in> set cs. room_id c = k \<and> pc c = Test" by simp_all
  define sv1 where "sv1 = sv\<lparr>store := (store sv)
       [a := (store sv ! a)\<lparr>players := insert (sid c) (players (store sv ! a))\<rparr>]\<rparr>"
  have h: "handle_join_room c sv = (c\<lparr>pc := Done, joined := Some a\<rparr>, sv1)"
    using handle_present [of sv c a] Cons.prems(1) c by (simp add: sv1_def)
  obtain cs1 sv2 where s: "serve cs sv1 = (cs1, sv2)" by (cases "serve cs sv1")
  have r1: "rooms sv1 k = Some a" and l1: "length (store sv1) = length (store sv)"
    using Cons.prems(1) by (simp_all add: sv1_def)
  from Cons.IH [OF r1 rest s] l1
  have *: "length (store sv2) = length (store sv)" "rooms sv2 k = Some a"
    "\<forall>c \<in> set cs1. pc c = Done \<and> joined c = Some a" by simp_all
  from Cons.prems(3) h s have "cs' = c\<lparr>pc := Done, joined := Some a\<rparr> # cs1" "sv' = sv2"
    by simp_all
  with * show ?case by simp
qed

section \<open>The claims\<close>

text \<open>
  C1, as the specification states it, at a full \<open>2 \<times> 2\<close> grid that holds one marker: no cell
  is empty, no two adjacent cells are equal, no marker is adjacent to a marker, and yet
  \<^verbatim>\<open>is_game_over\<close> returns \<open>False\<close>, by its guard \<^verbatim>\<open>if 'M' in row: return False\<close>.
\<close>

theorem full_grid_with_marker_not_over:
  "wf \<lparr>size_g = 2, grid = [[M, Num 2], [Num 4, Num 8]], score = 14, high_score = 14,
       moves = 0, game_over = False, won = False\<rparr>
   \<and> no_empty_cell [[M, Num 2], [Num 4, Num 8]]
   \<and> no_equal_neighbours 2 [[M, Num 2], [Num 4, Num 8]]
   \<and> no_adjacent_markers 2 [[M, Num 2], [Num 4, Num 8]]
   \<and> is_game_over \<lparr>size_g = 2, grid = [[M, Num 2], [Num 4, Num 8]], score = 14,
        high_score = 14, moves = 0, game_over = False, won = False\<rparr> = Inr False"
proof -
  have "is_game_over \<lparr>size_g = 2, grid = [[M, Num 2], [Num 4, Num 8]], score = 14,
          high_score = 14, moves = 0, game_over = False, won = False\<rparr> = Inr False"
    by code_simp
  then show ?thesis
    by (simp add: wf_def wf_grid_def no_empty_cell_def no_equal_neighbours_def
        no_adjacent_markers_def less_2_cases_iff)
qed

text \<open>
  C1, amended: on every well-formed state, \<^verbatim>\<open>is_game_over\<close> returns true if and only if the
  grid has no empty cell, holds no special marker at all, and no two horizontally or
  vertically adjacent cells share the same value; \<^verbatim>\<open>check_game_over\<close> returns the same
  and sets \<^verbatim>\<open>game_over\<close> when it is true, leaving the flag as it was otherwise.
\<close>

theorem is_game_over_iff:
  assumes "wf s"
  shows "is_game_over s =
           Inr (no_empty_cell (grid s) \<and> no_marker (grid s)
                \<and> no_equal_neighbours (nat (size_g s)) (grid s))
         \<and> check_game_over s =
           Inr (no_empty_cell (grid s) \<and> no_marker (grid s)
                \<and> no_equal_neighbours (nat (size_g s)) (grid s),
                s\<lparr>game_over := game_over s
                     \<or> (no_empty_cell (grid s) \<and> no_marker (grid s)
                        \<and> no_equal_neighbours (nat (size_g s)) (grid s))\<rparr>)"
  using is_game_over_wf [OF assms] check_game_over_wf [OF assms]
  by (simp add: terminal_def)

theorem is_game_over_iff_witness:
  "wf \<lparr>size_g = 2, grid = [[Num 2, Num 4], [Num 4, Num 2]], score = 12, high_score = 12,
       moves = 5, game_over = False, won = False\<rparr>
   \<and> no_empty_cell [[Num 2, Num 4], [Num 4, Num 2]]
   \<and> no_marker [[Num 2, Num 4], [Num 4, Num 2]]
   \<and> no_equal_neighbours 2 [[Num 2, Num 4], [Num 4, Num 2]]
   \<and> is_game_over \<lparr>size_g = 2, grid = [[Num 2, Num 4], [Num 4, Num 2]], score = 12,
        high_score = 12, moves = 5, game_over = False, won = False\<rparr> = Inr True
   \<and> check_game_over \<lparr>size_g = 2, grid = [[Num 2, Num 4], [Num 4, Num 2]], score = 12,
        high_score = 12, moves = 5, game_over = False, won = False\<rparr>
     = Inr (True, \<lparr>size_g = 2, grid = [[Num 2, Num 4], [Num 4, Num 2]], score = 12,
        high_score = 12, moves = 5, game_over = True, won = False\<rparr>)"
proof -
  have w: "wf \<lparr>size_g = 2, grid = [[Num 2, Num 4], [Num 4, Num 2]], score = 12,
       high_score = 12, moves = 5, game_over = False, won = False\<rparr>"
    by (simp add: wf_def wf_grid_def)
  have c: "no_empty_cell [[Num 2, Num 4], [Num 4, Num 2]]"
    "no_marker [[Num 2, Num 4], [Num 4, Num 2]]"
    "no_equal_neighbours 2 [[Num 2, Num 4], [Num 4, Num 2]]"
    by (simp_all add: no_empty_cell_def no_marker_def no_equal_neighbours_def less_2_cases_iff)
  from is_game_over_iff [OF w] w c show ?thesis by simp
qed

text \<open>
  C2: the row \<^verbatim>\<open>['M','M',4,0]\<close> of the specification's scenario C, in a \<open>4 \<times> 4\<close> grid with a
  \<open>2\<close> below the first marker. The move reports \<open>moved = True\<close>, but the resulting row is
  \<open>[0,4,0,0]\<close>, the \<open>2\<close> in the neighbourhood of the markers is still there, and the score
  is the sum of the cells, with no bonus: \<^verbatim>\<open>clear_surrounding_tiles\<close> works on the grid that
  \<^verbatim>\<open>self.grid = new_grid\<close> then replaces, and \<^verbatim>\<open>update_score\<close> recomputes the score.
\<close>

theorem marker_merge_clear_is_lost:
  "move_left \<lparr>pick = 13, rand = 1 / 2\<rparr>
     \<lparr>size_g = 4,
      grid = [[M, M, Num 4, Num 0], [Num 2, Num 0, Num 0, Num 0],
              [Num 0, Num 0, Num 0, Num 0], [Num 0, Num 0, Num 0, Num 0]],
      score = 6, high_score = 6, moves = 0, game_over = False, won = False\<rparr>
   = Inr (True,
     \<lparr>size_g = 4,
      grid = [[Num 0, Num 4, Num 0, Num 0], [Num 2, Num 0, Num 0, Num 0],
              [Num 0, Num 0, Num 0, Num 0], [Num 0, Num 0, Num 0, Num 2]],
      score = 8, high_score = 8, moves = 1, game_over = False, won = False\<rparr>)"
  by code_simp

text \<open>
  C3: in every state that construction, moves in the four directions and resets can reach,
  with any random draws, the score is the sum of the values of the cells that hold a
  positive integer; and on every grid, markers included, that sum is what
  \<^verbatim>\<open>calculate_total_score\<close> returns and what \<^verbatim>\<open>update_score\<close> stores, a marker adding nothing.
\<close>

theorem score_is_sum_of_positive_cells:
  "(reachable s \<longrightarrow> score s = sum_list (positive_values (grid s)))
   \<and> calculate_total_score g = sum_list (positive_values g)
   \<and> score (update_score t) = sum_list (positive_values (grid t))"
  using reachable_inv [of s]
  by (simp add: calculate_total_score_positive_values)

theorem score_is_sum_of_positive_cells_witness:
  "reachable (state_after (move Left \<lparr>pick = 0, rand = 1 / 2\<rparr>
               (state_after (init 2 \<lparr>pick = 1, rand = 1 / 2\<rparr> \<lparr>pick = 0, rand = 1 / 2\<rparr>))))
   \<and> state_after (move Left \<lparr>pick = 0, rand = 1 / 2\<rparr>
               (state_after (init 2 \<lparr>pick = 1, rand = 1 / 2\<rparr> \<lparr>pick = 0, rand = 1 / 2\<rparr>)))
     = \<lparr>size_g = 2, grid = [[Num 4, Num 2], [Num 0, Num 0]], score = 6, high_score = 6,
        moves = 1, game_over = False, won = False\<rparr>
   \<and> positive_values [[Num 4, Num 2], [Num 0, Num 0]] = [4, 2]
   \<and> positive_values [[M, Num 2], [Num 4, Num (- 8)]] = [2, 4]
   \<and> calculate_total_score [[M, Num 2], [Num 4, Num (- 8)]] = 6"
proof -
  have r: "reachable (state_after (move Left \<lparr>pick = 0, rand = 1 / 2\<rparr>
               (state_after (init 2 \<lparr>pick = 1, rand = 1 / 2\<rparr> \<lparr>pick = 0, rand = 1 / 2\<rparr>))))"
    by (intro reachable.moved reachable.new)
  have e: "state_after (move Left \<lparr>pick = 0, rand = 1 / 2\<rparr>
               (state_after (init 2 \<lparr>pick = 1, rand = 1 / 2\<rparr> \<lparr>pick = 0, rand = 1 / 2\<rparr>)))
     = \<lparr>size_g = 2, grid = [[Num 4, Num 2], [Num 0, Num 0]], score = 6, high_score = 6,
        moves = 1, game_over = False, won = False\<rparr>"
    by code_simp
  have p: "positive_values [[Num 4, Num 2], [Num 0, Num 0]] = [4, 2]"
    "positive_values [[M, Num 2], [Num 4, Num (- 8)]] = [2, 4]"
    by (simp_all add: positive_values_def)
  from score_is_sum_of_positive_cells
    [of "state_after (move Left \<lparr>pick = 0, rand = 1 / 2\<rparr>
               (state_after (init 2 \<lparr>pick = 1, rand = 1 / 2\<rparr> \<lparr>pick = 0, rand = 1 / 2\<rparr>)))"
        "[[M, Num 2], [Num 4, Num (- 8)]]"] r e p
  show ?thesis by simp
qed



text \<open>
  C5, as the specification states it, at an instance that has won: importing a state whose
  \<^verbatim>\<open>won\<close> is false returns, and \<^verbatim>\<open>won\<close> is false afterwards.
\<close>

theorem import_reverts_won:
  "won \<lparr>size_g = 2, grid = [[Num 2048, Num 2], [Num 0, Num 0]], score = 2050,
        high_score = 2050, moves = 900, game_over = False, won = True\<rparr>
   \<and> set_state
     \<lparr>d_grid = Some [[Num 2, Num 0], [Num 0, Num 4]], d_score = Some 6,
      d_high_score = Some 50, d_moves = Some 3, d_game_over = Some False,
      d_won = Some False, d_size = Some 2\<rparr>
     \<lparr>size_g = 2, grid = [[Num 2048, Num 2], [Num 0, Num 0]], score = 2050,
      high_score = 2050, moves = 900, game_over = False, won = True\<rparr>
   = Inr ((), \<lparr>size_g = 2, grid = [[Num 2, Num 0], [Num 0, Num 4]], score = 6,
               high_score = 2050, moves = 3, game_over = False, won = False\<rparr>)"
  by (simp add: set_state_def)

text \<open>
  C5, amended: after a move in any direction, whether it returns or raises, \<^verbatim>\<open>won\<close> is true
  if and only if it was true before or, in some row of the move, a merge of two adjacent
  equal numbers produced exactly \<open>2048\<close> (a tile that is then on the grid before the spawn);
  so a move sets it at such a merge and no move reverts it. A state import that returns
  leaves \<^verbatim>\<open>won\<close> at the imported value.
\<close>

theorem won_set_by_2048_merge:
  "won (state_after (move dir d s))
     = (won s \<or> (\<exists>row \<in> set (frame dir (grid s)). merge_produces 2048 row))
   \<and> ((\<exists>row \<in> set (frame dir (grid s)). merge_produces 2048 row) \<longrightarrow>
        (\<exists>row \<in> set (pre_spawn_grid dir s). Num 2048 \<in> set row))
   \<and> (set_state st s = Inr ((), s') \<longrightarrow> d_won st = Some (won s'))"
proof (intro conjI)
  show "won (state_after (move dir d s))
     = (won s \<or> (\<exists>row \<in> set (frame dir (grid s)). merge_produces 2048 row))"
    using move_effect [of dir d s] by (simp add: list_ex_iff produces_2048_merge)
  show "(\<exists>row \<in> set (frame dir (grid s)). merge_produces 2048 row) \<longrightarrow>
        (\<exists>row \<in> set (pre_spawn_grid dir s). Num 2048 \<in> set row)"
    using merge_produces_in_merged_row [of 2048 _ "size_g s"]
    by (auto simp: pre_spawn_grid_eq)
  show "set_state st s = Inr ((), s') \<longrightarrow> d_won st = Some (won s')"
    using set_state_returns [of st s s'] by blast
qed

theorem won_set_by_2048_merge_witness:
  "merge_produces 2048 [Num 1024, Num 0, Num 1024, Num 0]
   \<and> \<not> merge_produces 2048 [Num 2048, Num 0, Num 2048, Num 0]
   \<and> \<not> merge_produces 2048 [Num 1024, Num 2, Num 1024, Num 0]
   \<and> won (state_after (move Right \<lparr>pick = 0, rand = 1 / 2\<rparr>
       \<lparr>size_g = 4,
        grid = [[Num 0, Num 1024, Num 0, Num 1024], [Num 2, Num 0, Num 0, Num 0],
                [Num 0, Num 0, Num 0, Num 0], [Num 0, Num 0, Num 0, Num 0]],
        score = 2050, high_score = 2050, moves = 900, game_over = False, won = False\<rparr>))
   \<and> \<not> won (state_after (move Right \<lparr>pick = 0, rand = 1 / 2\<rparr>
       \<lparr>size_g = 4,
        grid = [[Num 0, Num 2048, Num 0, Num 2048], [Num 2, Num 0, Num 0, Num 0],
                [Num 0, Num 0, Num 0, Num 0], [Num 0, Num 0, Num 0, Num 0]],
        score = 4098, high_score = 4098, moves = 900, game_over = False, won = False\<rparr>))
   \<and> set_state
       \<lparr>d_grid = Some [[Num 2, Num 0], [Num 0, Num 4]], d_score = Some 6,
        d_high_score = Some 50, d_moves = Some 3, d_game_over = Some False,
        d_won = Some True, d_size = Some 2\<rparr>
       \<lparr>size_g = 2, grid = [[Num 0, Num 2], [Num 0, Num 0]], score = 2,
        high_score = 2, moves = 0, game_over = False, won = False\<rparr>
     = Inr ((), \<lparr>size_g = 2, grid = [[Num 2, Num 0], [Num 0, Num 4]], score = 6,
                 high_score = 50, moves = 3, game_over = False, won = True\<rparr>)"
proof -
  have p: "merge_produces 2048 [Num 1024, Num 0, Num 1024, Num 0]"
    "\<not> merge_produces 2048 [Num 2048, Num 0, Num 2048, Num 0]"
    "\<not> merge_produces 2048 [Num 1024, Num 2, Num 1024, Num 0]"
    by (simp_all add: merge_produces_def)
  have q: "\<exists>row \<in> set (frame Right [[Num 0, Num 1024, Num 0, Num 1024],
       [Num 2, Num 0, Num 0, Num 0], [Num 0, Num 0, Num 0, Num 0],
       [Num 0, Num 0, Num 0, Num 0]]). merge_produces 2048 row"
    by (simp add: reverse_rows_def merge_produces_def)
  have q': "\<not> (\<exists>row \<in> set (frame Right [[Num 0, Num 2048, Num 0, Num 2048],
       [Num 2, Num 0, Num 0, Num 0], [Num 0, Num 0, Num 0, Num 0],
       [Num 0, Num 0, Num 0, Num 0]]). merge_produces 2048 row)"
    by (simp add: reverse_rows_def merge_produces_def)
  have e: "set_state
       \<lparr>d_grid = Some [[Num 2, Num 0], [Num 0, Num 4]], d_score = Some 6,
        d_high_score = Some 50, d_moves = Some 3, d_game_over = Some False,
        d_won = Some True, d_size = Some 2\<rparr>
       \<lparr>size_g = 2, grid = [[Num 0, Num 2], [Num 0, Num 0]], score = 2,
        high_score = 2, moves = 0, game_over = False, won = False\<rparr>
     = Inr ((), \<lparr>size_g = 2, grid = [[Num 2, Num 0], [Num 0, Num 4]], score = 6,
                 high_score = 50, moves = 3, game_over = False, won = True\<rparr>)"
    by (simp add: set_state_def)
  from won_set_by_2048_merge
    [of Right "\<lparr>pick = 0, rand = 1 / 2\<rparr>"
       "\<lparr>size_g = 4,
        grid = [[Num 0, Num 1024, Num 0, Num 1024], [Num 2, Num 0, Num 0, Num 0],
                [Num 0, Num 0, Num 0, Num 0], [Num 0, Num 0, Num 0, Num 0]],
        score = 2050, high_score = 2050, moves = 900, game_over = False, won = False\<rparr>"] q
  have w1: "won (state_after (move Right \<lparr>pick = 0, rand = 1 / 2\<rparr>
       \<lparr>size_g = 4,
        grid = [[Num 0, Num 1024, Num 0, Num 1024], [Num 2, Num 0, Num 0, Num 0],
                [Num 0, Num 0, Num 0, Num 0], [Num 0, Num 0, Num 0, Num 0]],
        score = 2050, high_score = 2050, moves = 900, game_over = False, won = False\<rparr>))"
    by simp
  from won_set_by_2048_merge
    [of Right "\<lparr>pick = 0, rand = 1 / 2\<rparr>"
       "\<lparr>size_g = 4,
        grid = [[Num 0, Num 2048, Num 0, Num 2048], [Num 2, Num 0, Num 0, Num 0],
                [Num 0, Num 0, Num 0, Num 0], [Num 0, Num 0, Num 0, Num 0]],
        score = 4098, high_score = 4098, moves = 900, game_over = False, won = False\<rparr>"] q'
  have w2: "\<not> won (state_after (move Right \<lparr>pick = 0, rand = 1 / 2\<rparr>
       \<lparr>size_g = 4,
        grid = [[Num 0, Num 2048, Num 0, Num 2048], [Num 2, Num 0, Num 0, Num 0],
                [Num 0, Num 0, Num 0, Num 0], [Num 0, Num 0, Num 0, Num 0]],
        score = 4098, high_score = 4098, moves = 900, game_over = False, won = False\<rparr>))"
    by simp
  from p w1 w2 e show ?thesis by simp
qed

text \<open>
  C6, as the specification states it, at size \<open>1\<close>: construction returns a \<open>1 \<times> 1\<close> game (with
  one tile, and \<^verbatim>\<open>game_over\<close> set by the second \<^verbatim>\<open>add_new_tile\<close>); no error is raised.
\<close>

theorem init_size_1_succeeds:
  "init 1 \<lparr>pick = 0, rand = 1 / 2\<rparr> \<lparr>pick = 0, rand = 1 / 2\<rparr>
   = Inr ((), \<lparr>size_g = 1, grid = [[Num 2]], score = 2, high_score = 2, moves = 0,
               game_over = True, won = False\<rparr>)"
  by code_simp

text \<open>
  C6, amended: construction validates nothing and returns for every integer size, with a
  well-formed grid of that size and the score computed from the grid; for every size of at
  least \<open>2\<close> the grid holds exactly two tiles, each a \<open>2\<close> or a \<open>4\<close>.
\<close>

theorem init_total:
  "\<exists>s. init n d1 d2 = Inr ((), s) \<and> wf s \<and> size_g s = n
       \<and> score s = calculate_total_score (grid s)
       \<and> (2 \<le> n \<longrightarrow> tiles (grid s) = 2 \<and> spawned_values (grid s))"
proof -
  from init_wf [of n d1 d2] obtain s where
    s: "init n d1 d2 = Inr ((), s)" "wf s" "size_g s = n"
       "score s = calculate_total_score (grid s)" by blast
  have "tiles (grid s) = 2 \<and> spawned_values (grid s)" if "2 \<le> n"
    using two_tiles_count
      [of "\<lparr>size_g = n, grid = empty_grid n, score = 0, high_score = 0, moves = 0,
            game_over = False, won = False\<rparr>" d1 d2] that s(1)
    by (auto simp: init_def wf_def wf_grid_empty_grid)
  with s show ?thesis by blast
qed

theorem init_total_witness:
  "init 4 \<lparr>pick = 5, rand = 1 / 2\<rparr> \<lparr>pick = 0, rand = 19 / 20\<rparr>
   = Inr ((), \<lparr>size_g = 4,
               grid = [[Num 4, Num 0, Num 0, Num 0], [Num 0, Num 2, Num 0, Num 0],
                       [Num 0, Num 0, Num 0, Num 0], [Num 0, Num 0, Num 0, Num 0]],
               score = 6, high_score = 6, moves = 0, game_over = False, won = False\<rparr>)
   \<and> (2 :: int) \<le> 4
   \<and> tiles [[Num 4, Num 0, Num 0, Num 0], [Num 0, Num 2, Num 0, Num 0],
             [Num 0, Num 0, Num 0, Num 0], [Num 0, Num 0, Num 0, Num 0]] = 2
   \<and> spawned_values [[Num 4, Num 0, Num 0, Num 0], [Num 0, Num 2, Num 0, Num 0],
             [Num 0, Num 0, Num 0, Num 0], [Num 0, Num 0, Num 0, Num 0]]"
proof -
  have e: "init 4 \<lparr>pick = 5, rand = 1 / 2\<rparr> \<lparr>pick = 0, rand = 19 / 20\<rparr>
   = Inr ((), \<lparr>size_g = 4,
               grid = [[Num 4, Num 0, Num 0, Num 0], [Num 0, Num 2, Num 0, Num 0],
                       [Num 0, Num 0, Num 0, Num 0], [Num 0, Num 0, Num 0, Num 0]],
               score = 6, high_score = 6, moves = 0, game_over = False, won = False\<rparr>)"
    by code_simp
  from e init_total [of 4 "\<lparr>pick = 5, rand = 1 / 2\<rparr>" "\<lparr>pick = 0, rand = 19 / 20\<rparr>"]
  show ?thesis by auto
qed

text \<open>
  C7: on a well-formed state, whenever a move in any direction returns \<open>moved = True\<close>, the
  grid after the rows have moved and before the spawn has an empty cell, and the call of
  \<^verbatim>\<open>add_new_tile\<close> inside the move returned \<open>True\<close>; and \<^verbatim>\<open>add_new_tile\<close> returns, with
  \<open>False\<close> exactly when the grid has no empty cell.
\<close>

theorem spawn_after_move:
  assumes "wf s"
  shows "(move dir d s = Inr (True, s') \<longrightarrow>
            \<not> no_empty_cell (pre_spawn_grid dir s)
            \<and> (\<exists>s2 s3 over s4.
                  size_g s2 = size_g s \<and> grid s2 = pre_spawn_grid dir s
                  \<and> add_new_tile d s2 = Inr (True, s3)
                  \<and> check_game_over (update_score s3) = Inr (over, s4)
                  \<and> s' = s4\<lparr>grid := unframe dir (grid s4)\<rparr>))
         \<and> (\<exists>b s1. add_new_tile d s = Inr (b, s1) \<and> (b = False \<longleftrightarrow> no_empty_cell (grid s)))"
proof
  show "move dir d s = Inr (True, s') \<longrightarrow>
            \<not> no_empty_cell (pre_spawn_grid dir s)
            \<and> (\<exists>s2 s3 over s4.
                  size_g s2 = size_g s \<and> grid s2 = pre_spawn_grid dir s
                  \<and> add_new_tile d s2 = Inr (True, s3)
                  \<and> check_game_over (update_score s3) = Inr (over, s4)
                  \<and> s' = s4\<lparr>grid := unframe dir (grid s4)\<rparr>)"
  proof
    assume m: "move dir d s = Inr (True, s')"
    from move_wf [OF assms, of dir d] m
    have ch: "list_ex (\<lambda>row. merged_row (size_g s) row \<noteq> row) (frame dir (grid s))"
      and ex: "\<exists>s2 s3 over s4.
                 size_g s2 = size_g s
                 \<and> grid s2 = map (merged_row (size_g s)) (frame dir (grid s)) \<and> wf s2
                 \<and> add_new_tile d s2 = Inr (True, s3)
                 \<and> check_game_over (update_score s3) = Inr (over, s4)
                 \<and> wf s4 \<and> score s4 = calculate_total_score (grid s4)
                 \<and> move dir d s = Inr (True, s4\<lparr>grid := unframe dir (grid s4)\<rparr>)"
      by auto
    from assms have "wf_grid (size_g s) (frame dir (grid s))"
      by (simp add: wf_def wf_grid_frame)
    from slid_has_empty [OF this ch]
    have "\<not> no_empty_cell (pre_spawn_grid dir s)" by (simp add: pre_spawn_grid_eq)
    moreover from ex m have "\<exists>s2 s3 over s4.
                  size_g s2 = size_g s \<and> grid s2 = pre_spawn_grid dir s
                  \<and> add_new_tile d s2 = Inr (True, s3)
                  \<and> check_game_over (update_score s3) = Inr (over, s4)
                  \<and> s' = s4\<lparr>grid := unframe dir (grid s4)\<rparr>"
      unfolding pre_spawn_grid_eq by fastforce
    ultimately show "\<not> no_empty_cell (pre_spawn_grid dir s)
            \<and> (\<exists>s2 s3 over s4.
                  size_g s2 = size_g s \<and> grid s2 = pre_spawn_grid dir s
                  \<and> add_new_tile d s2 = Inr (True, s3)
                  \<and> check_game_over (update_score s3) = Inr (over, s4)
                  \<and> s' = s4\<lparr>grid := unframe dir (grid s4)\<rparr>)" by simp
  qed
next
  from add_new_tile_wf [OF assms, of d]
  show "\<exists>b s1. add_new_tile d s = Inr (b, s1) \<and> (b = False \<longleftrightarrow> no_empty_cell (grid s))"
    by auto
qed

theorem spawn_after_move_witness:
  "wf \<lparr>size_g = 2, grid = [[Num 0, Num 2], [Num 0, Num 2]], score = 4, high_score = 4,
       moves = 0, game_over = False, won = False\<rparr>
   \<and> move Down \<lparr>pick = 1, rand = 19 / 20\<rparr>
       \<lparr>size_g = 2, grid = [[Num 0, Num 2], [Num 0, Num 2]], score = 4, high_score = 4,
        moves = 0, game_over = False, won = False\<rparr>
     = Inr (True, \<lparr>size_g = 2, grid = [[Num 4, Num 0], [Num 0, Num 4]], score = 8,
                   high_score = 8, moves = 1, game_over = False, won = False\<rparr>)
   \<and> \<not> no_empty_cell (pre_spawn_grid Down
       \<lparr>size_g = 2, grid = [[Num 0, Num 2], [Num 0, Num 2]], score = 4, high_score = 4,
        moves = 0, game_over = False, won = False\<rparr>)"
proof -
  have w: "wf \<lparr>size_g = 2, grid = [[Num 0, Num 2], [Num 0, Num 2]], score = 4,
       high_score = 4, moves = 0, game_over = False, won = False\<rparr>"
    by (simp add: wf_def wf_grid_def)
  have m: "move Down \<lparr>pick = 1, rand = 19 / 20\<rparr>
       \<lparr>size_g = 2, grid = [[Num 0, Num 2], [Num 0, Num 2]], score = 4, high_score = 4,
        moves = 0, game_over = False, won = False\<rparr>
     = Inr (True, \<lparr>size_g = 2, grid = [[Num 4, Num 0], [Num 0, Num 4]], score = 8,
                   high_score = 8, moves = 1, game_over = False, won = False\<rparr>)"
    by code_simp
  from spawn_after_move [OF w, of Down "\<lparr>pick = 1, rand = 19 / 20\<rparr>"
      "\<lparr>size_g = 2, grid = [[Num 4, Num 0], [Num 0, Num 4]], score = 8,
        high_score = 8, moves = 1, game_over = False, won = False\<rparr>"] m w
  show ?thesis by blast
qed

text \<open>
  C8: on a well-formed state, a move in any direction returns, and if it returns
  \<open>moved = False\<close> the state is the one before the move: the same grid (so no tile is
  spawned), score, move counter and flags.
\<close>

theorem unmoved_unchanged:
  assumes "wf s"
  shows "(\<exists>b s'. move dir d s = Inr (b, s'))
         \<and> (\<forall>s'. move dir d s = Inr (False, s') \<longrightarrow> s' = s)"
  using move_wf [OF assms, of dir d] by auto

theorem unmoved_unchanged_witness:
  "wf \<lparr>size_g = 2, grid = [[Num 2, Num 4], [Num 0, Num 0]], score = 6, high_score = 6,
       moves = 1, game_over = False, won = False\<rparr>
   \<and> move Up \<lparr>pick = 0, rand = 1 / 2\<rparr>
       \<lparr>size_g = 2, grid = [[Num 2, Num 4], [Num 0, Num 0]], score = 6, high_score = 6,
        moves = 1, game_over = False, won = False\<rparr>
     = Inr (False, \<lparr>size_g = 2, grid = [[Num 2, Num 4], [Num 0, Num 0]], score = 6,
                    high_score = 6, moves = 1, game_over = False, won = False\<rparr>)"
proof -
  have w: "wf \<lparr>size_g = 2, grid = [[Num 2, Num 4], [Num 0, Num 0]], score = 6,
       high_score = 6, moves = 1, game_over = False, won = False\<rparr>"
    by (simp add: wf_def wf_grid_def)
  have "fst (projr (move Up \<lparr>pick = 0, rand = 1 / 2\<rparr>
       \<lparr>size_g = 2, grid = [[Num 2, Num 4], [Num 0, Num 0]], score = 6, high_score = 6,
        moves = 1, game_over = False, won = False\<rparr>)) = False"
    by code_simp
  with unmoved_unchanged [OF w, of Up "\<lparr>pick = 0, rand = 1 / 2\<rparr>"] w
  show ?thesis by auto
qed

text \<open>
  C9: on a well-formed state the methods \<^verbatim>\<open>move_right\<close>, \<^verbatim>\<open>move_up\<close> and \<^verbatim>\<open>move_down\<close> are the
  left move conjugated by reversal of the rows and transposition, as the specification
  words them: the same resulting state and the same moved result.
\<close>

theorem moves_are_conjugated_left:
  assumes "wf s"
  shows "move_right d s = spec_right d s \<and> move_up d s = spec_up d s
         \<and> move_down d s = spec_down d s"
proof (intro conjI)
  from assms have wfg: "wf_grid (size_g s) (grid s)" by (simp add: wf_def)
  show "move_right d s = spec_right d s"
    unfolding move_right_def spec_right_def conjugated_def reverse_rows_def by (rule refl)
  show "move_up d s = spec_up d s"
  proof -
    define t where "t = s\<lparr>grid := zip_star (grid s)\<rparr>"
    have wft: "wf t" using wfg by (simp add: t_def wf_def wf_grid_zip_star)
    from move_left_returns_wf [OF wft, of d]
    obtain b s1 where r: "move_left d t = Inr (b, s1)" "wf s1" by blast
    from r(2) have "zip_star (grid s1) = transpose (grid s1)"
      by (simp add: wf_def zip_star_transpose)
    with r(1) show ?thesis
      by (simp add: move_up_def spec_up_def conjugated_def
          zip_star_transpose [OF wfg, symmetric] t_def [symmetric])
  qed
  show "move_down d s = spec_down d s"
  proof -
    define t where "t = s\<lparr>grid := reverse_rows (zip_star (grid s))\<rparr>"
    have wft: "wf t"
      using wfg by (simp add: t_def wf_def wf_grid_zip_star wf_grid_reverse_rows)
    from move_left_returns_wf [OF wft, of d]
    obtain b s1 where r: "move_left d t = Inr (b, s1)" "wf s1" by blast
    from r(2) have "wf_grid (size_g s1) (reverse_rows (grid s1))"
      by (simp add: wf_def wf_grid_reverse_rows)
    then have "zip_star (reverse_rows (grid s1)) = transpose (map rev (grid s1))"
      by (simp add: zip_star_transpose reverse_rows_def)
    with r(1) show ?thesis
      by (simp add: move_down_def spec_down_def conjugated_def
          zip_star_transpose [OF wfg, symmetric] reverse_rows_def [symmetric]
          t_def [symmetric])
  qed
qed

theorem moves_are_conjugated_left_witness:
  "wf \<lparr>size_g = 2, grid = [[Num 2, Num 4], [Num 2, Num 0]], score = 8, high_score = 8,
       moves = 1, game_over = False, won = False\<rparr>
   \<and> spec_down \<lparr>pick = 0, rand = 1 / 2\<rparr>
       \<lparr>size_g = 2, grid = [[Num 2, Num 4], [Num 2, Num 0]], score = 8, high_score = 8,
        moves = 1, game_over = False, won = False\<rparr>
     = Inr (True, \<lparr>size_g = 2, grid = [[Num 2, Num 0], [Num 4, Num 4]], score = 10,
                   high_score = 10, moves = 2, game_over = False, won = False\<rparr>)"
proof -
  have w: "wf \<lparr>size_g = 2, grid = [[Num 2, Num 4], [Num 2, Num 0]], score = 8,
       high_score = 8, moves = 1, game_over = False, won = False\<rparr>"
    by (simp add: wf_def wf_grid_def)
  have m: "move_down \<lparr>pick = 0, rand = 1 / 2\<rparr>
       \<lparr>size_g = 2, grid = [[Num 2, Num 4], [Num 2, Num 0]], score = 8, high_score = 8,
        moves = 1, game_over = False, won = False\<rparr>
     = Inr (True, \<lparr>size_g = 2, grid = [[Num 2, Num 0], [Num 4, Num 4]], score = 10,
                   high_score = 10, moves = 2, game_over = False, won = False\<rparr>)"
    by code_simp
  from moves_are_conjugated_left [OF w, of "\<lparr>pick = 0, rand = 1 / 2\<rparr>"] m w
  show ?thesis by simp
qed

text \<open>
  C10, as the specification states it, at two calls of \<^verbatim>\<open>handle_join_room\<close> for the unseen
  room id \<^verbatim>\<open>default\<close> that run in two threads: both calls test before either assigns, so
  two rooms are created, the second assignment replaces the first room, and the callers
  have joined different rooms.
\<close>

theorem concurrent_join_creates_two_rooms:
  "length (store (srv (run [0, 1, 0, 0, 1, 1]
      \<lparr>callers = [\<lparr>room_id = ''default'', sid = 0,
                    draws = (\<lparr>pick = 0, rand = 1 / 2\<rparr>, \<lparr>pick = 1, rand = 1 / 2\<rparr>),
                    pc = Test, joined = None\<rparr>,
                  \<lparr>room_id = ''default'', sid = 1,
                    draws = (\<lparr>pick = 2, rand = 1 / 2\<rparr>, \<lparr>pick = 3, rand = 1 / 2\<rparr>),
                    pc = Test, joined = None\<rparr>],
        srv = no_rooms\<rparr>))) = 2
   \<and> map pc (callers (run [0, 1, 0, 0, 1, 1]
      \<lparr>callers = [\<lparr>room_id = ''default'', sid = 0,
                    draws = (\<lparr>pick = 0, rand = 1 / 2\<rparr>, \<lparr>pick = 1, rand = 1 / 2\<rparr>),
                    pc = Test, joined = None\<rparr>,
                  \<lparr>room_id = ''default'', sid = 1,
                    draws = (\<lparr>pick = 2, rand = 1 / 2\<rparr>, \<lparr>pick = 3, rand = 1 / 2\<rparr>),
                    pc = Test, joined = None\<rparr>],
        srv = no_rooms\<rparr>)) = [Done, Done]
   \<and> map joined (callers (run [0, 1, 0, 0, 1, 1]
      \<lparr>callers = [\<lparr>room_id = ''default'', sid = 0,
                    draws = (\<lparr>pick = 0, rand = 1 / 2\<rparr>, \<lparr>pick = 1, rand = 1 / 2\<rparr>),
                    pc = Test, joined = None\<rparr>,
                  \<lparr>room_id = ''default'', sid = 1,
                    draws = (\<lparr>pick = 2, rand = 1 / 2\<rparr>, \<lparr>pick = 3, rand = 1 / 2\<rparr>),
                    pc = Test, joined = None\<rparr>],
        srv = no_rooms\<rparr>)) = [Some 0, Some 1]
   \<and> rooms (srv (run [0, 1, 0, 0, 1, 1]
      \<lparr>callers = [\<lparr>room_id = ''default'', sid = 0,
                    draws = (\<lparr>pick = 0, rand = 1 / 2\<rparr>, \<lparr>pick = 1, rand = 1 / 2\<rparr>),
                    pc = Test, joined = None\<rparr>,
                  \<lparr>room_id = ''default'', sid = 1,
                    draws = (\<lparr>pick = 2, rand = 1 / 2\<rparr>, \<lparr>pick = 3, rand = 1 / 2\<rparr>),
                    pc = Test, joined = None\<rparr>],
        srv = no_rooms\<rparr>)) ''default'' = Some 1"
  by (simp add: run_def thread_step_def caller_step_def no_rooms_def)

text \<open>
  C10, amended: nothing makes the test and the assignment of a call atomic. When the calls
  for one room id run one after another, at most one room is created (none when the id is
  registered already) and every caller joins the room that is registered under the id.
\<close>

theorem serial_join_creates_one_room:
  assumes "\<forall>c \<in> set cs. room_id c = k \<and> pc c = Test" and "serve cs sv = (cs', sv')"
  shows "length (store sv') \<le> length (store sv) + 1
         \<and> (rooms sv k \<noteq> None \<longrightarrow> length (store sv') = length (store sv))
         \<and> (cs \<noteq> [] \<longrightarrow>
              (\<exists>a. rooms sv' k = Some a \<and> (\<forall>c \<in> set cs'. pc c = Done \<and> joined c = Some a)))"
proof (cases "rooms sv k")
  case (Some a)
  from serve_present [OF Some assms] Some show ?thesis by auto
next
  case None
  show ?thesis
  proof (cases cs)
    case Nil
    with assms(2) show ?thesis by simp
  next
    case (Cons c cs0)
    with assms(1) have c: "room_id c = k" "pc c = Test"
      and rest: "\<forall>c \<in> set cs0. room_id c = k \<and> pc c = Test" by simp_all
    from handle_absent [of sv c] None c
    obtain sv1 where h:
      "handle_join_room c sv = (c\<lparr>pc := Done, joined := Some (length (store sv))\<rparr>, sv1)"
      "rooms sv1 k = Some (length (store sv))"
      "length (store sv1) = length (store sv) + 1" by auto
    obtain cs1 sv2 where s: "serve cs0 sv1 = (cs1, sv2)" by (cases "serve cs0 sv1")
    from serve_present [OF h(2) rest s] h(3)
    have *: "length (store sv2) = length (store sv) + 1"
      "rooms sv2 k = Some (length (store sv))"
      "\<forall>c \<in> set cs1. pc c = Done \<and> joined c = Some (length (store sv))" by simp_all
    from assms(2) Cons h(1) s
    have "cs' = c\<lparr>pc := Done, joined := Some (length (store sv))\<rparr> # cs1" "sv' = sv2"
      by simp_all
    with * None Cons show ?thesis by simp
  qed
qed


theorem serial_join_creates_one_room_witness:
  "length (store (snd (serve
           [\<lparr>room_id = ''default'', sid = 0,
             draws = (\<lparr>pick = 0, rand = 1 / 2\<rparr>, \<lparr>pick = 1, rand = 1 / 2\<rparr>),
             pc = Test, joined = None\<rparr>,
            \<lparr>room_id = ''default'', sid = 1,
             draws = (\<lparr>pick = 2, rand = 1 / 2\<rparr>, \<lparr>pick = 3, rand = 1 / 2\<rparr>),
             pc = Test, joined = None\<rparr>]
           no_rooms))) = 1
   \<and> map joined (fst (serve
           [\<lparr>room_id = ''default'', sid = 0,
             draws = (\<lparr>pick = 0, rand = 1 / 2\<rparr>, \<lparr>pick = 1, rand = 1 / 2\<rparr>),
             pc = Test, joined = None\<rparr>,
            \<lparr>room_id = ''default'', sid = 1,
             draws = (\<lparr>pick = 2, rand = 1 / 2\<rparr>, \<lparr>pick = 3, rand = 1 / 2\<rparr>),
             pc = Test, joined = None\<rparr>]
           no_rooms)) = [Some 0, Some 0]
   \<and> map players (store (snd (serve
           [\<lparr>room_id = ''default'', sid = 0,
             draws = (\<lparr>pick = 0, rand = 1 / 2\<rparr>, \<lparr>pick = 1, rand = 1 / 2\<rparr>),
             pc = Test, joined = None\<rparr>,
            \<lparr>room_id = ''default'', sid = 1,
             draws = (\<lparr>pick = 2, rand = 1 / 2\<rparr>, \<lparr>pick = 3, rand = 1 / 2\<rparr>),
             pc = Test, joined = None\<rparr>]
           no_rooms))) = [{0, 1}]
   \<and> rooms (snd (serve
           [\<lparr>room_id = ''default'', sid = 0,
             draws = (\<lparr>pick = 0, rand = 1 / 2\<rparr>, \<lparr>pick = 1, rand = 1 / 2\<rparr>),
             pc = Test, joined = None\<rparr>,
            \<lparr>room_id = ''default'', sid = 1,
             draws = (\<lparr>pick = 2, rand = 1 / 2\<rparr>, \<lparr>pick = 3, rand = 1 / 2\<rparr>),
             pc = Test, joined = None\<rparr>]
           no_rooms)) ''default'' = Some 0
   \<and> map joined (callers (run [0, 0, 0, 1, 1, 1]
         \<lparr>callers = [\<lparr>room_id = ''default'', sid = 0,
             draws = (\<lparr>pick = 0, rand = 1 / 2\<rparr>, \<lparr>pick = 1, rand = 1 / 2\<rparr>),
             pc = Test, joined = None\<rparr>,
            \<lparr>room_id = ''default'', sid = 1,
             draws = (\<lparr>pick = 2, rand = 1 / 2\<rparr>, \<lparr>pick = 3, rand = 1 / 2\<rparr>),
             pc = Test, joined = None\<rparr>],
           srv = no_rooms\<rparr>)) = [Some 0, Some 0]"
proof -
  have h: "\<forall>c \<in> set [\<lparr>room_id = ''default'', sid = 0,
             draws = (\<lparr>pick = 0, rand = 1 / 2\<rparr>, \<lparr>pick = 1, rand = 1 / 2\<rparr>),
             pc = Test, joined = None\<rparr>,
            \<lparr>room_id = ''default'', sid = 1,
             draws = (\<lparr>pick = 2, rand = 1 / 2\<rparr>, \<lparr>pick = 3, rand = 1 / 2\<rparr>),
             pc = Test, joined = None\<rparr>]. room_id c = ''default'' \<and> pc c = Test"
    by simp
  have e: "serve
           [\<lparr>room_id = ''default'', sid = 0,
             draws = (\<lparr>pick = 0, rand = 1 / 2\<rparr>, \<lparr>pick = 1, rand = 1 / 2\<rparr>),
             pc = Test, joined = None\<rparr>,
            \<lparr>room_id = ''default'', sid = 1,
             draws = (\<lparr>pick = 2, rand = 1 / 2\<rparr>, \<lparr>pick = 3, rand = 1 / 2\<rparr>),
             pc = Test, joined = None\<rparr>]
           no_rooms
         = (fst (serve
           [\<lparr>room_id = ''default'', sid = 0,
             draws = (\<lparr>pick = 0, rand = 1 / 2\<rparr>, \<lparr>pick = 1, rand = 1 / 2\<rparr>),
             pc = Test, joined = None\<rparr>,
            \<lparr>room_id = ''default'', sid = 1,
             draws = (\<lparr>pick = 2, rand = 1 / 2\<rparr>, \<lparr>pick = 3, rand = 1 / 2\<rparr>),
             pc = Test, joined = None\<rparr>]
           no_rooms),
            snd (serve
           [\<lparr>room_id = ''default'', sid = 0,
             draws = (\<lparr>pick = 0, rand = 1 / 2\<rparr>, \<lparr>pick = 1, rand = 1 / 2\<rparr>),
             pc = Test, joined = None\<rparr>,
            \<lparr>room_id = ''default'', sid = 1,
             draws = (\<lparr>pick = 2, rand = 1 / 2\<rparr>, \<lparr>pick = 3, rand = 1 / 2\<rparr>),
             pc = Test, joined = None\<rparr>]
           no_rooms))"
    by simp
  have v: "length (store (snd (serve
           [\<lparr>room_id = ''default'', sid = 0,
             draws = (\<lparr>pick = 0, rand = 1 / 2\<rparr>, \<lparr>pick = 1, rand = 1 / 2\<rparr>),
             pc = Test, joined = None\<rparr>,
            \<lparr>room_id = ''default'', sid = 1,
             draws = (\<lparr>pick = 2, rand = 1 / 2\<rparr>, \<lparr>pick = 3, rand = 1 / 2\<rparr>),
             pc = Test, joined = None\<rparr>]
           no_rooms))) = 1"
    "map joined (fst (serve
           [\<lparr>room_id = ''default'', sid = 0,
             draws = (\<lparr>pick = 0, rand = 1 / 2\<rparr>, \<lparr>pick = 1, rand = 1 / 2\<rparr>),
             pc = Test, joined = None\<rparr>,
            \<lparr>room_id = ''default'', sid = 1,
             draws = (\<lparr>pick = 2, rand = 1 / 2\<rparr>, \<lparr>pick = 3, rand = 1 / 2\<rparr>),
             pc = Test, joined = None\<rparr>]
           no_rooms)) = [Some 0, Some 0]"
    "map players (store (snd (serve
           [\<lparr>room_id = ''default'', sid = 0,
             draws = (\<lparr>pick = 0, rand = 1 / 2\<rparr>, \<lparr>pick = 1, rand = 1 / 2\<rparr>),
             pc = Test, joined = None\<rparr>,
            \<lparr>room_id = ''default'', sid = 1,
             draws = (\<lparr>pick = 2, rand = 1 / 2\<rparr>, \<lparr>pick = 3, rand = 1 / 2\<rparr>),
             pc = Test, joined = None\<rparr>]
           no_rooms))) = [{0, 1}]"
    "rooms (snd (serve
           [\<lparr>room_id = ''default'', sid = 0,
             draws = (\<lparr>pick = 0, rand = 1 / 2\<rparr>, \<lparr>pick = 1, rand = 1 / 2\<rparr>),
             pc = Test, joined = None\<rparr>,
            \<lparr>room_id = ''default'', sid = 1,
             draws = (\<lparr>pick = 2, rand = 1 / 2\<rparr>, \<lparr>pick = 3, rand = 1 / 2\<rparr>),
             pc = Test, joined = None\<rparr>]
           no_rooms)) ''default'' = Some 0"
    by (auto simp: handle_join_room_def caller_step_def no_rooms_def)
  have r: "map joined (callers (run [0, 0, 0, 1, 1, 1]
         \<lparr>callers = [\<lparr>room_id = ''default'', sid = 0,
             draws = (\<lparr>pick = 0, rand = 1 / 2\<rparr>, \<lparr>pick = 1, rand = 1 / 2\<rparr>),
             pc = Test, joined = None\<rparr>,
            \<lparr>room_id = ''default'', sid = 1,
             draws = (\<lparr>pick = 2, rand = 1 / 2\<rparr>, \<lparr>pick = 3, rand = 1 / 2\<rparr>),
             pc = Test, joined = None\<rparr>],
           srv = no_rooms\<rparr>)) = [Some 0, Some 0]"
    by (simp add: run_def thread_step_def caller_step_def no_rooms_def)
  from serial_join_creates_one_room [OF h e] v r show ?thesis by simp
qed

end
